theory Spec2Isabelle
  imports Main "HOL-Library.Log_Nat"
begin

section \<open>Constants and data model of \<^verbatim>\<open>src/main.ts\<close>\<close>

text \<open>
  \<^verbatim>\<open>Constants.GRID_WIDTH\<close> and \<^verbatim>\<open>Constants.GRID_HEIGHT\<close>. The coordinates and the
  cells are JavaScript numbers that hold small integers; they are modelled as \<open>int\<close>.
  The numbers that can leave the range in which doubles are exact, the score and the
  level, and the products with \<^verbatim>\<open>Math.random()\<close>, are rounded as doubles are: see the
  section on JavaScript numbers.
\<close>

definition GRID_WIDTH :: int where
  "GRID_WIDTH = 10"

definition GRID_HEIGHT :: int where
  "GRID_HEIGHT = 20"

text \<open>
  The only exception the reducer can raise: reading or writing a property of
  \<^verbatim>\<open>undefined\<close> (an index beyond the end of the outer board array, or of the catalog).
\<close>

datatype error = TypeError

section \<open>JavaScript numbers\<close>

text \<open>
  A finite double is a mantissa of at most 53 bits times a power of two; the record
  stands for \<open>mantissa * 2 ^ exponent\<close> (\<open>valueOf\<close>, as a rational number).
\<close>

record Double =
  mantissa :: int
  exponent :: int

definition valueOf :: "Double \<Rightarrow> rat" where
  "valueOf d =
     (if 0 \<le> exponent d then of_int (mantissa d * 2 ^ nat (exponent d))
      else of_int (mantissa d) / of_int (2 ^ nat (- exponent d)))"

text \<open>
  The results of \<^verbatim>\<open>Math.random()\<close>: the doubles in \<open>[0, 1)\<close>. Each of them is
  \<open>m * 2 ^ e\<close> for some \<open>0 \<le> m < 2 ^ 53\<close> and \<open>- 1074 \<le> e \<le> - 53\<close> (the normal ones below 1
  have 53 bits and an exponent of at most \<open>- 53\<close>, the subnormal ones the exponent
  \<open>- 1074\<close>), and each such product is a double below 1.
\<close>

definition isRandom :: "Double \<Rightarrow> bool" where
  "isRandom d \<longleftrightarrow>
     0 \<le> mantissa d \<and> mantissa d < 2 ^ 53 \<and> - 1074 \<le> exponent d \<and> exponent d \<le> - 53"

text \<open>
  Rounding to nearest, ties to even, the rounding of every arithmetic operation on
  doubles: \<open>roundHalfEven a s\<close> is \<open>a / 2 ^ s\<close> rounded to an integer, for \<open>a \<ge> 0\<close>.
\<close>

definition roundHalfEven :: "int \<Rightarrow> nat \<Rightarrow> int" where
  "roundHalfEven a s =
     (let q = a div 2 ^ s; r = a mod 2 ^ s
      in if 2 * r < 2 ^ s then q
         else if 2 * r > 2 ^ s then q + 1
         else if even q then q else q + 1)"

text \<open>The number of bits by which \<open>a \<ge> 0\<close> exceeds the 53 bits of a mantissa.\<close>

definition excessBits :: "int \<Rightarrow> nat" where
  "excessBits a = nat (bitlen a - 53)"

text \<open>
  The double nearest to the integer \<open>v\<close>: \<open>v\<close> itself up to 53 bits, otherwise its
  leading 53 bits, rounded. (A magnitude that rounds to \<open>2 ^ 1024\<close> or more gives
  \<^verbatim>\<open>Infinity\<close> in JavaScript, which no sum below can reach: see \<open>numAdd\<close>.)
\<close>

definition roundInteger :: "int \<Rightarrow> int" where
  "roundInteger v =
     (let a = \<bar>v\<bar>; s = excessBits a in sgn v * (roundHalfEven a s * 2 ^ s))"

text \<open>
  \<^verbatim>\<open>a + b\<close> for doubles that hold integers: the exact sum, rounded. The program adds
  only the constants 1 and 10 to the score and 1 to the level, which start at 0 and 1;
  so these fields always hold integers, and the sum stays finite (adding 10 to the
  largest double rounds back to it).
\<close>

definition numAdd :: "int \<Rightarrow> int \<Rightarrow> int" where
  "numAdd a b = roundInteger (a + b)"

text \<open>
  \<^verbatim>\<open>d * n\<close> for a double \<open>d\<close> and a double that holds the integer \<open>n\<close>: the exact
  product \<open>mantissa d * n * 2 ^ exponent d\<close>, its mantissa rounded to 53 bits. (For
  \<open>d\<close> below 1 and the \<open>n\<close> of this program the exponent stays far from the overflow
  and underflow of doubles.)
\<close>

definition mulByInt :: "Double \<Rightarrow> int \<Rightarrow> Double" where
  "mulByInt d n =
     (let p = mantissa d * n; a = \<bar>p\<bar>; s = excessBits a
      in \<lparr> mantissa = sgn p * roundHalfEven a s, exponent = exponent d + int s \<rparr>)"

text \<open>\<^verbatim>\<open>Math.floor(d)\<close>, as an integer.\<close>

definition floorDouble :: "Double \<Rightarrow> int" where
  "floorDouble d =
     (if 0 \<le> exponent d then mantissa d * 2 ^ nat (exponent d)
      else mantissa d div 2 ^ nat (- exponent d))"

text \<open>The double \<open>k / 2 ^ j\<close>, for \<open>j \<le> 53\<close>; used to write the examples.\<close>

definition dyadic :: "int \<Rightarrow> nat \<Rightarrow> Double" where
  "dyadic k j = \<lparr> mantissa = k * 2 ^ (53 - j), exponent = - 53 \<rparr>"

section \<open>Boards, blocks and states\<close>

text \<open>
  A board is an array of row arrays. A row element is \<open>Some v\<close> for a stored number
  \<open>v\<close> and \<open>None\<close> for an empty slot: an assignment \<^verbatim>\<open>row[i] = 1\<close> beyond the end of a
  JavaScript array extends it and leaves the slots in between empty; \<^verbatim>\<open>every\<close> and
  \<^verbatim>\<open>some\<close> skip empty slots, and reading one gives \<^verbatim>\<open>undefined\<close>.
\<close>

type_synonym cell = "int option"

type_synonym board = "cell list list"

text \<open>\<^verbatim>\<open>type Block = { shape: number[][]; x: number; y: number }\<close>\<close>

record Block =
  shape :: "int list list"
  x :: int
  y :: int

text \<open>
  \<^verbatim>\<open>type State\<close>. The fields \<open>currentBlock\<close> and \<open>nextBlock\<close> hold references (addresses
  in the store of block objects below), because the reducer assigns to
  \<^verbatim>\<open>state.currentBlock.x\<close> in place and the same block object can be reachable from
  more than one state object. The board is held by value: every board array belongs to
  one game only (\<^verbatim>\<open>restartGame\<close> builds a new one), and the only reader of a state is
  the next call of the reducer. The fields \<open>score\<close>, \<open>highScore\<close> and \<open>level\<close> hold the
  integer that the double holds; they are added with \<open>numAdd\<close>.
\<close>

record State =
  gameEnd :: bool
  gameBoard :: board
  currentBlock :: nat
  nextBlock :: nat
  nextBlockShape :: "int list list"
  score :: int
  canRestart :: bool
  highScore :: int
  level :: int

text \<open>
  What the \<^verbatim>\<open>scan\<close> of \<^verbatim>\<open>main\<close> works on: the store of block objects (\<open>blocks\<close>, with
  \<open>nextRef\<close> the first address not yet allocated), the constant
  \<^verbatim>\<open>initialStateWithNextShape\<close> captured by \<^verbatim>\<open>restartGame\<close>, and the accumulator
  \<open>state\<close>.
\<close>

record World =
  blocks :: "nat \<Rightarrow> Block"
  nextRef :: nat
  initialStateWithNextShape :: State
  state :: State

text \<open>
  The events that pass the filter of \<^verbatim>\<open>key$\<close> (by their \<^verbatim>\<open>event.code\<close>), and the number
  events of \<^verbatim>\<open>tick$\<close>.
\<close>

datatype Event = KeyA | KeyD | KeyS | KeyR | Tick

section \<open>Array operations\<close>

text \<open>
  \<^verbatim>\<open>xs.every((a, i) => f(a, i))\<close> for a callback that may throw: stops at the first
  \<^verbatim>\<open>false\<close> and at the first exception. The third argument is the index of the head.
\<close>

fun every :: "('a \<Rightarrow> nat \<Rightarrow> error + bool) \<Rightarrow> 'a list \<Rightarrow> nat \<Rightarrow> error + bool" where
  "every f [] i = Inr True"
| "every f (a # as) i =
     (case f a i of
        Inl e \<Rightarrow> Inl e
      | Inr b \<Rightarrow> if b then every f as (Suc i) else Inr False)"

text \<open>
  \<^verbatim>\<open>xs.forEach((a, i) => ...)\<close> for a callback that updates \<open>s\<close> and may throw.
\<close>

fun forEach :: "('a \<Rightarrow> nat \<Rightarrow> 's \<Rightarrow> error + 's) \<Rightarrow> 'a list \<Rightarrow> nat \<Rightarrow> 's \<Rightarrow> error + 's" where
  "forEach f [] i s = Inr s"
| "forEach f (a # as) i s =
     (case f a i s of
        Inl e \<Rightarrow> Inl e
      | Inr s' \<Rightarrow> forEach f as (Suc i) s')"

text \<open>
  \<^verbatim>\<open>row[i] = v\<close>: inside the array the element is replaced; beyond its end the array
  grows to length \<open>i + 1\<close> with empty slots in between; a negative \<open>i\<close> sets a property
  that is not an element, which no read of the program (all guarded by
  \<^verbatim>\<open>boardX >= 0\<close>) can see.
\<close>

definition arraySet :: "cell list \<Rightarrow> int \<Rightarrow> int \<Rightarrow> cell list" where
  "arraySet row i v =
     (if i < 0 then row
      else if nat i < length row then row[nat i := Some v]
      else row @ replicate (nat i - length row) None @ [Some v])"

text \<open>
  \<^verbatim>\<open>xs.splice(start, 1)\<close>: a negative \<open>start\<close> counts from the end (not below 0), a
  \<open>start\<close> beyond the end removes nothing.
\<close>

definition splice1 :: "int \<Rightarrow> 'a list \<Rightarrow> 'a list" where
  "splice1 start xs =
     (let len = int (length xs);
          k = (if start < 0 then max (len + start) 0 else min start len)
      in take (nat k) xs @ drop (Suc (nat k)) xs)"

text \<open>\<^verbatim>\<open>Array(Constants.GRID_WIDTH).fill(0)\<close>\<close>

definition emptyRow :: "cell list" where
  "emptyRow = replicate (nat GRID_WIDTH) (Some 0)"

text \<open>
  \<^verbatim>\<open>Array.from({ length: Constants.GRID_HEIGHT }, () => Array(Constants.GRID_WIDTH).fill(0))\<close>
\<close>

definition emptyBoard :: board where
  "emptyBoard = replicate (nat GRID_HEIGHT) emptyRow"

section \<open>The block factory\<close>

definition blockTypes :: "int list list list" where
  "blockTypes =
     [ [[1, 1], [1, 1]],
       [[1, 1, 1, 1]],
       [[0, 1, 0], [1, 1, 1]],
       [[1, 0], [1, 0], [1, 1]],
       [[0, 1], [0, 1], [1, 1]],
       [[0, 1, 1], [1, 1, 0]],
       [[1, 1, 0], [0, 1, 1]] ]"

text \<open>
  \<^verbatim>\<open>createRandomBlock\<close>, with the two results of \<^verbatim>\<open>Math.random()\<close> as arguments \<open>r1\<close>
  and \<open>r2\<close>, in the order of the calls. The products
  \<^verbatim>\<open>Math.random() * blockTypes.length\<close> and
  \<^verbatim>\<open>Math.random() * (GRID_WIDTH - randomBlockType[0].length + 1)\<close> are products of
  doubles, rounded (\<open>mulByInt\<close>), and \<^verbatim>\<open>Math.floor\<close> is taken of the rounded product. An
  index outside the catalog would read \<^verbatim>\<open>undefined\<close>, and \<^verbatim>\<open>randomBlockType[0]\<close> would
  throw.
\<close>

definition createRandomBlock :: "Double \<Rightarrow> Double \<Rightarrow> error + Block" where
  "createRandomBlock r1 r2 =
     (let i = floorDouble (mulByInt r1 (int (length blockTypes))) in
      if 0 \<le> i \<and> i < int (length blockTypes) then
        (let randomBlockType = blockTypes ! nat i in
         case randomBlockType of
           [] \<Rightarrow> Inl TypeError
         | row0 # _ \<Rightarrow>
             Inr \<lparr> shape = randomBlockType,
                   x = floorDouble (mulByInt r2 (GRID_WIDTH - int (length row0) + 1)),
                   y = 0 \<rparr>)
      else Inl TypeError)"

section \<open>Move validation\<close>

text \<open>
  The body of the inner callback of \<^verbatim>\<open>isValidMove\<close> for a cell equal to 1:
  \<^verbatim>\<open>boardX >= 0 && boardX < GRID_WIDTH && boardY < GRID_HEIGHT &&
  (boardY < 0 || gameBoard[boardY][boardX] === 0)\<close>, evaluated left to right.
  \<^verbatim>\<open>gameBoard[boardY]\<close> is \<^verbatim>\<open>undefined\<close> beyond the end of the board, and indexing it
  throws; an element beyond the end of a row, or an empty slot, is \<^verbatim>\<open>undefined\<close>, which
  is not \<^verbatim>\<open>=== 0\<close>.
\<close>

definition cellFits :: "board \<Rightarrow> int \<Rightarrow> int \<Rightarrow> error + bool" where
  "cellFits g boardX boardY =
     (if boardX \<ge> 0 \<and> boardX < GRID_WIDTH \<and> boardY < GRID_HEIGHT then
        (if boardY < 0 then Inr True
         else if nat boardY < length g then
           (let row = g ! nat boardY
            in Inr (nat boardX < length row \<and> row ! nat boardX = Some 0))
         else Inl TypeError)
      else Inr False)"

text \<open>\<^verbatim>\<open>isValidMove(s, deltaX, deltaY)\<close>, reading \<^verbatim>\<open>s.currentBlock\<close> from the store \<open>h\<close>.\<close>

definition isValidMove :: "(nat \<Rightarrow> Block) \<Rightarrow> State \<Rightarrow> int \<Rightarrow> int \<Rightarrow> error + bool" where
  "isValidMove h s deltaX deltaY =
     (let b = h (currentBlock s) in
      every (\<lambda>row rowIndex.
        every (\<lambda>cell colIndex.
          if cell = 1 then
            (let boardX = x b + int colIndex + deltaX;
                 boardY = y b + int rowIndex + deltaY
             in cellFits (gameBoard s) boardX boardY)
          else Inr True) row 0) (shape b) 0)"

section \<open>Locking, game over, row clearing\<close>

text \<open>
  \<^verbatim>\<open>gameBoard[boardY][boardX] = 1\<close> for \<^verbatim>\<open>boardY >= 0\<close>: throws when the board has no
  row \<open>boardY\<close>.
\<close>

definition boardSet :: "board \<Rightarrow> int \<Rightarrow> int \<Rightarrow> error + board" where
  "boardSet g boardY boardX =
     (if nat boardY < length g then
        Inr (g[nat boardY := arraySet (g ! nat boardY) boardX 1])
      else Inl TypeError)"

text \<open>
  \<^verbatim>\<open>stackBlock(gameBoard, currentBlock, state)\<close>, with the parameters named \<open>g0\<close>,
  \<open>blk\<close> and \<open>st\<close>. The source mutates \<^verbatim>\<open>gameBoard\<close> and
  returns a copy of \<^verbatim>\<open>state\<close> with the score incremented; the model returns both, the
  mutated board first. Both callers pass \<^verbatim>\<open>state.gameBoard\<close> as \<^verbatim>\<open>gameBoard\<close>, so the
  board of the returned copy is the mutated one.
\<close>

definition stackBlock :: "board \<Rightarrow> Block \<Rightarrow> State \<Rightarrow> error + (board \<times> State)" where
  "stackBlock g0 blk st =
     (case forEach (\<lambda>row rowIdx.
             forEach (\<lambda>cell colIdx g.
               if cell = 1 then
                 (let boardX = x blk + int colIdx;
                      boardY = y blk + int rowIdx
                  in if boardY \<ge> 0 then boardSet g boardY boardX else Inr g)
               else Inr g) row 0) (shape blk) 0 g0 of
        Inl e \<Rightarrow> Inl e
      | Inr g \<Rightarrow> Inr (g, st\<lparr> gameBoard := g, score := numAdd (score st) 1 \<rparr>))"

text \<open>\<^verbatim>\<open>isGameOver\<close>: \<^verbatim>\<open>gameBoard[0].some((cell) => cell === 1)\<close>\<close>

definition isGameOver :: "board \<Rightarrow> error + bool" where
  "isGameOver g =
     (case g of
        [] \<Rightarrow> Inl TypeError
      | row0 # _ \<Rightarrow> Inr (list_ex (\<lambda>cell. cell = Some 1) row0))"

text \<open>
  \<^verbatim>\<open>row.every((cell) => cell === 1)\<close>, the test of the row-clearing loop; empty slots
  are skipped.
\<close>

definition rowFull :: "cell list \<Rightarrow> bool" where
  "rowFull row = list_all (\<lambda>cell. cell = None \<or> cell = Some 1) row"

text \<open>
  The row-clearing loop of the reducer,
  \<^verbatim>\<open>state.gameBoard.slice().reverse().forEach((row, y) => { ... })\<close>: \<open>clearRows rows y st\<close>
  runs the callback over \<open>rows\<close>, the rest of the reversed copy, whose head has index
  \<open>y\<close>. The callback tests the row of the copy and splices the live board
  \<^verbatim>\<open>state.gameBoard\<close> at index \<^verbatim>\<open>GRID_HEIGHT - 1 - y\<close>.
\<close>

fun clearRows :: "cell list list \<Rightarrow> nat \<Rightarrow> State \<Rightarrow> State" where
  "clearRows [] y' st = st"
| "clearRows (row # rows) y' st =
     clearRows rows (Suc y')
       (if rowFull row then
          st\<lparr> gameBoard := emptyRow # splice1 (GRID_HEIGHT - 1 - int y') (gameBoard st),
               score := numAdd (score st) 10,
               level := numAdd (level st) 1 \<rparr>
        else st)"

definition clearFullRows :: "State \<Rightarrow> State" where
  "clearFullRows st = clearRows (rev (gameBoard st)) 0 st"

section \<open>The reducer\<close>

text \<open>
  \<^verbatim>\<open>restartGame()\<close>: the captured initial state with a new empty board. Its
  \<open>currentBlock\<close> and \<open>nextBlock\<close> are the references of the initial state: no block is
  created.
\<close>

definition restartGame :: "World \<Rightarrow> State" where
  "restartGame w = (initialStateWithNextShape w)\<lparr> gameBoard := emptyBoard \<rparr>"

text \<open>
  The callback of \<^verbatim>\<open>scan\<close>: \<open>reducer r1 r2 w event\<close>, where \<open>r1\<close> and \<open>r2\<close> are the
  results of the two calls of \<^verbatim>\<open>Math.random()\<close> that \<^verbatim>\<open>createRandomBlock\<close> makes when
  the branch calls it. An assignment \<^verbatim>\<open>state.currentBlock.x -= 1\<close> updates the block
  object in the store; \<^verbatim>\<open>updatedBlock\<close> and the block of \<^verbatim>\<open>createRandomBlock\<close> are new
  objects, stored at \<open>nextRef\<close> when the returned state refers to them.
\<close>

definition reducer :: "Double \<Rightarrow> Double \<Rightarrow> World \<Rightarrow> Event \<Rightarrow> error + World" where
  "reducer r1 r2 w event =
     (let st = state w; cur = currentBlock st; b = blocks w cur in
      case event of
        KeyA \<Rightarrow>
          (case isValidMove (blocks w) st (- 1) 0 of
             Inl e \<Rightarrow> Inl e
           | Inr ok \<Rightarrow>
               Inr (if ok then w\<lparr> blocks := (blocks w)(cur := b\<lparr> x := x b - 1 \<rparr>) \<rparr> else w))
      | KeyD \<Rightarrow>
          (case isValidMove (blocks w) st 1 0 of
             Inl e \<Rightarrow> Inl e
           | Inr ok \<Rightarrow>
               Inr (if ok then w\<lparr> blocks := (blocks w)(cur := b\<lparr> x := x b + 1 \<rparr>) \<rparr> else w))
      | KeyS \<Rightarrow>
          (case isValidMove (blocks w) st 0 1 of
             Inl e \<Rightarrow> Inl e
           | Inr ok \<Rightarrow>
               Inr (if ok then w\<lparr> blocks := (blocks w)(cur := b\<lparr> y := y b + 1 \<rparr>) \<rparr> else w))
      | KeyR \<Rightarrow>
          (if canRestart st then
             (let updatedHighScore = (if score st > highScore st then score st else highScore st)
              in if gameEnd st then
                   Inr (w\<lparr> state := (restartGame w)\<lparr> canRestart := False,
                                                     highScore := updatedHighScore \<rparr> \<rparr>)
                 else Inr w)
           else Inr w)
      | Tick \<Rightarrow>
          (if gameEnd st then Inr w
           else
             (let updatedBlock = b\<lparr> y := y b + 1 \<rparr> in
              case isValidMove (blocks w) st 0 1 of
                Inl e \<Rightarrow> Inl e
              | Inr ok \<Rightarrow>
                  if \<not> ok then
                    (case stackBlock (gameBoard st) b st of
                       Inl e \<Rightarrow> Inl e
                     | Inr (g, discarded) \<Rightarrow>
                         (case isGameOver g of
                            Inl e \<Rightarrow> Inl e
                          | Inr gameEnd' \<Rightarrow>
                              (let st1 = st\<lparr> gameBoard := g \<rparr>;
                                   st2 = (if \<not> gameEnd' then st1\<lparr> score := numAdd (score st1) 1 \<rparr>
                                          else st1);
                                   st3 = clearFullRows st2
                               in if gameEnd' then
                                    (let updatedHighScore =
                                           (if score st3 > highScore st3 then score st3
                                            else highScore st3)
                                     in Inr (w\<lparr> state := st3\<lparr> gameEnd := gameEnd',
                                                               canRestart := True,
                                                               highScore := updatedHighScore \<rparr> \<rparr>))
                                  else
                                    (case createRandomBlock r1 r2 of
                                       Inl e \<Rightarrow> Inl e
                                     | Inr newNextBlock \<Rightarrow>
                                         Inr (w\<lparr> blocks := (blocks w)(nextRef w := newNextBlock),
                                                 nextRef := Suc (nextRef w),
                                                 state := st3\<lparr> currentBlock := nextBlock st3,
                                                               nextBlock := nextRef w,
                                                               nextBlockShape := shape newNextBlock \<rparr> \<rparr>)))))
                  else
                    Inr (w\<lparr> blocks := (blocks w)(nextRef w := updatedBlock),
                            nextRef := Suc (nextRef w),
                            state := st\<lparr> currentBlock := nextRef w \<rparr> \<rparr>))))"

text \<open>
  The module-level \<^verbatim>\<open>initialState\<close> and the \<^verbatim>\<open>initialStateWithNextShape\<close> of \<^verbatim>\<open>main\<close>:
  the two blocks are created from four results of \<^verbatim>\<open>Math.random()\<close> and stored at
  addresses 0 and 1.
\<close>

definition initialWorld :: "Double \<Rightarrow> Double \<Rightarrow> Double \<Rightarrow> Double \<Rightarrow> error + World" where
  "initialWorld r1 r2 r3 r4 =
     (case createRandomBlock r1 r2 of
        Inl e \<Rightarrow> Inl e
      | Inr b0 \<Rightarrow>
          (case createRandomBlock r3 r4 of
             Inl e \<Rightarrow> Inl e
           | Inr b1 \<Rightarrow>
               (let initialState =
                      \<lparr> gameEnd = False, gameBoard = emptyBoard, currentBlock = 0,
                        nextBlock = 1, nextBlockShape = [], score = 0, canRestart = False,
                        highScore = 0, level = 1 \<rparr>;
                    withNextShape = initialState\<lparr> nextBlockShape := shape b1 \<rparr>
                in Inr \<lparr> blocks = (\<lambda>a. if a = 0 then b0 else b1),
                         nextRef = 2,
                         initialStateWithNextShape = withNextShape,
                         state = withNextShape \<rparr>)))"

text \<open>
  The worlds the program can be in: the initial one, and every result of the reducer on
  a reachable world, an event and two results of \<^verbatim>\<open>Math.random()\<close>.
\<close>

inductive reachable :: "World \<Rightarrow> bool" where
  reachable_init:
    "isRandom r1 \<Longrightarrow> isRandom r2 \<Longrightarrow> isRandom r3 \<Longrightarrow> isRandom r4 \<Longrightarrow>
     initialWorld r1 r2 r3 r4 = Inr w \<Longrightarrow> reachable w"
| reachable_step:
    "reachable w \<Longrightarrow> isRandom r1 \<Longrightarrow> isRandom r2 \<Longrightarrow>
     reducer r1 r2 w event = Inr w' \<Longrightarrow> reachable w'"

text \<open>
  The \<^verbatim>\<open>scan\<close> itself: the reducer folded over the stream of events, each with the two
  random numbers its call may draw. An exception ends the stream.
\<close>

fun run :: "World \<Rightarrow> (Double \<times> Double \<times> Event) list \<Rightarrow> error + World" where
  "run w [] = Inr w"
| "run w ((r1, r2, event) # events) =
     (case reducer r1 r2 w event of
        Inl e \<Rightarrow> Inl e
      | Inr w' \<Rightarrow> run w' events)"

text \<open>
  The program from its start: \<^verbatim>\<open>initialState\<close> built from four random numbers, then the
  \<^verbatim>\<open>scan\<close> over the events.
\<close>

definition play ::
  "Double \<Rightarrow> Double \<Rightarrow> Double \<Rightarrow> Double \<Rightarrow> (Double \<times> Double \<times> Event) list \<Rightarrow> error + World" where
  "play r1 r2 r3 r4 events =
     (case initialWorld r1 r2 r3 r4 of
        Inl e \<Rightarrow> Inl e
      | Inr w \<Rightarrow> run w events)"

text \<open>\<^verbatim>\<open>state.currentBlock\<close> and \<^verbatim>\<open>state.nextBlock\<close>, read through the store.\<close>

definition currentPiece :: "World \<Rightarrow> Block" where
  "currentPiece w = blocks w (currentBlock (state w))"

definition nextPiece :: "World \<Rightarrow> Block" where
  "nextPiece w = blocks w (nextBlock (state w))"

section \<open>Predicates used to state the properties\<close>

text \<open>The grid of the data model: \<open>GRID_HEIGHT\<close> rows of \<open>GRID_WIDTH\<close> cells.\<close>

definition gridShaped :: "board \<Rightarrow> bool" where
  "gridShaped g \<longleftrightarrow>
     int (length g) = GRID_HEIGHT \<and> (\<forall>row \<in> set g. int (length row) = GRID_WIDTH)"

text \<open>
  Every occupied cell of the block lies in a column of the grid and above its floor
  (rows above the top are allowed, as in \<^verbatim>\<open>isValidMove\<close>).
\<close>

definition blockInBounds :: "Block \<Rightarrow> bool" where
  "blockInBounds b \<longleftrightarrow>
     (\<forall>rowIndex < length (shape b). \<forall>colIndex < length (shape b ! rowIndex).
        shape b ! rowIndex ! colIndex = 1 \<longrightarrow>
          0 \<le> x b + int colIndex \<and> x b + int colIndex < GRID_WIDTH \<and>
          y b + int rowIndex < GRID_HEIGHT)"

text \<open>
  The invariant of the reachable worlds under which the reducer raises no exception: the
  board has the grid's shape, and the blocks that the state and the captured initial
  state refer to are allocated and in bounds.
\<close>

definition worldInv :: "World \<Rightarrow> bool" where
  "worldInv w \<longleftrightarrow>
     gridShaped (gameBoard (state w)) \<and>
     (\<forall>a \<in> {currentBlock (state w), nextBlock (state w),
              currentBlock (initialStateWithNextShape w),
              nextBlock (initialStateWithNextShape w)}.
        a < nextRef w \<and> blockInBounds (blocks w a))"

text \<open>The number of rows that pass the test of the row-clearing loop.\<close>

definition fullRows :: "board \<Rightarrow> nat" where
  "fullRows g = length (filter rowFull g)"

section \<open>Example worlds and games\<close>

text \<open>A row given by its ten cells, for the examples.\<close>

definition cells :: "int list \<Rightarrow> cell list" where
  "cells vs = map Some vs"

text \<open>
  A line piece lying on the floor of an otherwise empty board (spec, scenario A, after
  the soft drops).
\<close>

definition landingWorld :: World where
  "landingWorld =
     (let st = \<lparr> gameEnd = False, gameBoard = emptyBoard, currentBlock = 2, nextBlock = 1,
                  nextBlockShape = [[1, 1], [1, 1]], score = 0, canRestart = False,
                  highScore = 0, level = 1 \<rparr>
      in \<lparr> blocks = (\<lambda>a. if a = 2 then \<lparr> shape = [[1, 1, 1, 1]], x = 3, y = 19 \<rparr>
                          else if a = 1 then \<lparr> shape = [[1, 1], [1, 1]], x = 0, y = 0 \<rparr>
                          else \<lparr> shape = [[1, 1, 1, 1]], x = 3, y = 0 \<rparr>),
            nextRef = 3,
            initialStateWithNextShape = st\<lparr> currentBlock := 0 \<rparr>,
            state = st \<rparr>)"

text \<open>
  A square piece at columns 8 and 9 of rows 18 and 19, whose other eight columns are
  occupied; row 17 holds two cells.
\<close>

definition twoRowsWorld :: World where
  "twoRowsWorld =
     (let st = \<lparr> gameEnd = False,
                  gameBoard = replicate 17 emptyRow @
                    [cells [1, 0, 1, 0, 0, 0, 0, 0, 0, 0],
                     cells [1, 1, 1, 1, 1, 1, 1, 1, 0, 0],
                     cells [1, 1, 1, 1, 1, 1, 1, 1, 0, 0]],
                  currentBlock = 2, nextBlock = 1,
                  nextBlockShape = [[1, 1, 1, 1]], score = 5, canRestart = False,
                  highScore = 0, level = 1 \<rparr>
      in \<lparr> blocks = (\<lambda>a. if a = 2 then \<lparr> shape = [[1, 1], [1, 1]], x = 8, y = 18 \<rparr>
                          else \<lparr> shape = [[1, 1, 1, 1]], x = 3, y = 0 \<rparr>),
            nextRef = 3,
            initialStateWithNextShape =
              st\<lparr> gameBoard := emptyBoard, currentBlock := 0, score := 0 \<rparr>,
            state = st \<rparr>)"

text \<open>
  An L piece just spawned at column 4 on top of a stack: it cannot move down, its lowest
  row completes row 2, and its highest cell is in row 0.
\<close>

definition topOutWorld :: World where
  "topOutWorld =
     (let st = \<lparr> gameEnd = False,
                  gameBoard =
                    [emptyRow, emptyRow,
                     cells [1, 1, 1, 1, 0, 0, 1, 1, 1, 1],
                     cells [0, 0, 0, 1, 1, 1, 1, 0, 0, 0],
                     cells [0, 0, 0, 1, 1, 1, 1, 0, 0, 0]] @
                    concat (replicate 5
                      [cells [0, 0, 0, 0, 1, 0, 0, 0, 0, 0],
                       cells [0, 0, 0, 0, 1, 0, 0, 0, 0, 0],
                       cells [0, 0, 0, 0, 1, 1, 0, 0, 0, 0]]),
                  currentBlock = 2, nextBlock = 3,
                  nextBlockShape = [[1, 0], [1, 0], [1, 1]], score = 9, canRestart = False,
                  highScore = 4, level = 1 \<rparr>
      in \<lparr> blocks = (\<lambda>a. \<lparr> shape = [[1, 0], [1, 0], [1, 1]], x = 4, y = 0 \<rparr>),
            nextRef = 4,
            initialStateWithNextShape =
              st\<lparr> gameBoard := emptyBoard, currentBlock := 0, nextBlock := 1, score := 0,
                  highScore := 0 \<rparr>,
            state = st \<rparr>)"

text \<open>
  The worlds \<open>landingWorld\<close> and \<open>twoRowsWorld\<close> with the score \<open>2 ^ 53\<close>, the first
  integer whose successor is not a double.
\<close>

definition landingWorldAtLimit :: World where
  "landingWorldAtLimit = landingWorld\<lparr> state := (state landingWorld)\<lparr> score := 2 ^ 53 \<rparr> \<rparr>"

definition twoRowsWorldAtLimit :: World where
  "twoRowsWorldAtLimit = twoRowsWorld\<lparr> state := (state twoRowsWorld)\<lparr> score := 2 ^ 53 \<rparr> \<rparr>"

text \<open>
  Random numbers of the examples: \<open>1/2\<close>, \<open>1/4\<close>, \<open>3/4\<close>, \<open>15/16\<close> and 0. With
  \<open>r1 = 0\<close> the factory picks the square, with \<open>r1 = 1/4\<close> the line, with \<open>r1 = 1/2\<close> the
  L piece. The doubles nearest to \<open>3/7\<close> and \<open>1/3\<close> are the ones whose rounded products
  \<open>3/7 * 7\<close> and \<open>1/3 * 9\<close> reach the integer 3 that the exact products stay below.
\<close>

definition rHalf :: Double where
  "rHalf = dyadic 1 1"

definition rQuarter :: Double where
  "rQuarter = dyadic 1 2"

definition rThreeQuarters :: Double where
  "rThreeQuarters = dyadic 3 2"

definition rFifteenSixteenths :: Double where
  "rFifteenSixteenths = dyadic 15 4"

definition rZero :: Double where
  "rZero = dyadic 0 0"

definition nearestToThreeSevenths :: Double where
  "nearestToThreeSevenths = \<lparr> mantissa = 7720456504063707, exponent = - 54 \<rparr>"

definition nearestToOneThird :: Double where
  "nearestToOneThird = \<lparr> mantissa = 6004799503160661, exponent = - 54 \<rparr>"

text \<open>
  Three games from the start of the program, as lists of events with the random numbers
  of each call.

  \<open>squaresGame\<close>: five squares fall to the floor at columns 0, 2, 4, 6 and 8 (19 ticks
  each); the fifth completes rows 18 and 19 at once.
\<close>

definition squaresGame :: "(Double \<times> Double \<times> Event) list" where
  "squaresGame =
     replicate 19 (rZero, rHalf, Tick) @ replicate 19 (rZero, rThreeQuarters, Tick) @
     replicate 19 (rZero, rFifteenSixteenths, Tick) @ replicate 19 (rZero, rZero, Tick) @
     replicate 19 (rZero, rZero, Tick)"

text \<open>
  \<open>towerGame\<close>: the first piece is moved down with the S key before the first tick,
  then seven L pieces stack up in columns 0 and 1 until the seventh locks in row 0.
\<close>

definition towerGame :: "(Double \<times> Double \<times> Event) list" where
  "towerGame = (rHalf, rZero, KeyS) # replicate 63 (rHalf, rZero, Tick)"

text \<open>
  \<open>clearAtTopGame\<close>: five L pieces build a tower in columns 4 and 5, two lines lie
  across it, two more lines fill row 2 except columns 4 and 5, and a last L piece locks
  at its spawn position: it completes row 2 and reaches row 0.
\<close>

definition clearAtTopGame :: "(Double \<times> Double \<times> Event) list" where
  "clearAtTopGame =
     replicate 18 (rHalf, rHalf, Tick) @ replicate 15 (rHalf, rHalf, Tick) @
     replicate 12 (rHalf, rHalf, Tick) @ replicate 9 (rQuarter, rHalf, Tick) @
     replicate 6 (rQuarter, rHalf, Tick) @ replicate 5 (rQuarter, rZero, Tick) @
     replicate 4 (rQuarter, rFifteenSixteenths, Tick) @ replicate 3 (rHalf, rHalf, Tick) @
     replicate 3 (rHalf, rHalf, Tick) @ [(rHalf, rHalf, Tick)]"

text \<open>Every random number of a game is a possible result of \<^verbatim>\<open>Math.random()\<close>.\<close>

definition randomsInRange :: "(Double \<times> Double \<times> Event) list \<Rightarrow> bool" where
  "randomsInRange events =
     list_all (\<lambda>(r1, r2, event). isRandom r1 \<and> isRandom r2) events"

section \<open>Rounding and the products with a random number\<close>

lemma roundHalfEven_zero [simp]: "roundHalfEven a 0 = a"
  by (simp add: roundHalfEven_def)

lemma roundHalfEven_nonneg:
  assumes "0 \<le> a"
  shows "0 \<le> roundHalfEven a s"
  using assms by (auto simp: roundHalfEven_def Let_def pos_imp_zdiv_nonneg_iff)

text \<open>The rounded value is within half a unit of the last place of the exact one.\<close>

lemma roundHalfEven_upper:
  "2 * (roundHalfEven a s * 2 ^ s) \<le> 2 * a + 2 ^ s"
proof -
  define q where "q = a div 2 ^ s"
  define r where "r = a mod 2 ^ s"
  have a: "a = q * 2 ^ s + r" unfolding q_def r_def by (rule div_mult_mod_eq [symmetric])
  have r: "0 \<le> r" "r < 2 ^ s" by (simp_all add: r_def)
  have "roundHalfEven a s = q \<or> (roundHalfEven a s = q + 1 \<and> 2 ^ s \<le> 2 * r)"
    unfolding roundHalfEven_def Let_def q_def [symmetric] r_def [symmetric] by auto
  then show ?thesis
  proof
    assume "roundHalfEven a s = q"
    then show ?thesis using a r by simp
  next
    assume h: "roundHalfEven a s = q + 1 \<and> 2 ^ s \<le> 2 * r"
    then have "2 * (roundHalfEven a s * 2 ^ s) = 2 * (q * 2 ^ s) + 2 * 2 ^ s"
      by (simp add: algebra_simps)
    also have "\<dots> \<le> 2 * (q * 2 ^ s) + 2 * r + 2 ^ s" using h by simp
    also have "\<dots> = 2 * a + 2 ^ s" using a by simp
    finally show ?thesis .
  qed
qed

lemma roundHalfEven_lower:
  "2 * a \<le> 2 * (roundHalfEven a s * 2 ^ s) + 2 ^ s"
proof -
  define q where "q = a div 2 ^ s"
  define r where "r = a mod 2 ^ s"
  have a: "a = q * 2 ^ s + r" unfolding q_def r_def by (rule div_mult_mod_eq [symmetric])
  have r: "0 \<le> r" "r < 2 ^ s" by (simp_all add: r_def)
  have "(roundHalfEven a s = q \<and> 2 * r \<le> 2 ^ s) \<or> roundHalfEven a s = q + 1"
    unfolding roundHalfEven_def Let_def q_def [symmetric] r_def [symmetric] by auto
  then show ?thesis
  proof
    assume "roundHalfEven a s = q \<and> 2 * r \<le> 2 ^ s"
    then show ?thesis using a by simp
  next
    assume "roundHalfEven a s = q + 1"
    then have "2 * (roundHalfEven a s * 2 ^ s) = 2 * (q * 2 ^ s) + 2 * 2 ^ s"
      by (simp add: algebra_simps)
    then show ?thesis using a r by simp
  qed
qed

lemma excessBits_small:
  assumes "0 \<le> a" "a < 2 ^ 53"
  shows "excessBits a = 0"
proof -
  have "bitlen a \<le> 53" using assms(2) by (simp add: bitlen_le_iff_power)
  then show ?thesis by (simp add: excessBits_def)
qed

lemma excessBits_power:
  assumes "0 < a"
  shows "2 ^ excessBits a * 2 ^ 52 \<le> (a::int) \<or> excessBits a = 0"
proof (cases "bitlen a \<le> 53")
  case True
  then show ?thesis by (simp add: excessBits_def)
next
  case False
  then have e: "nat (bitlen a - 1) = excessBits a + 52" by (simp add: excessBits_def)
  have "2 ^ nat (bitlen a - 1) \<le> a" using bitlen_bounds [OF assms] by blast
  then show ?thesis unfolding e by (simp add: power_add)
qed

text \<open>
  The rounded mantissa has at most 53 bits or is \<open>2 ^ 53\<close>: the result of the rounding
  is a double again.
\<close>

lemma roundHalfEven_fits:
  assumes "0 \<le> a"
  shows "roundHalfEven a (excessBits a) \<le> 2 ^ 53"
proof (cases "a < 2 ^ 53")
  case True
  then show ?thesis using excessBits_small [OF assms True] by simp
next
  case False
  then have pos: "0 < a" by (smt (verit) zero_less_power)
  define s where "s = excessBits a"
  have "\<not> bitlen a \<le> 53" using False by (simp add: bitlen_le_iff_power)
  then have b: "nat (bitlen a) = 53 + s" by (simp add: s_def excessBits_def)
  have "a < 2 ^ nat (bitlen a)" using bitlen_bounds [OF pos] by blast
  then have "a < 2 ^ 53 * 2 ^ s" unfolding b by (simp add: power_add)
  moreover have "a div 2 ^ s * 2 ^ s \<le> a"
  proof -
    have "a div 2 ^ s * 2 ^ s + a mod 2 ^ s = a" by (rule div_mult_mod_eq)
    moreover have "0 \<le> a mod 2 ^ s" by simp
    ultimately show ?thesis by linarith
  qed
  ultimately have "a div 2 ^ s * 2 ^ s < 2 ^ 53 * 2 ^ s" by linarith
  then have "a div 2 ^ s < 2 ^ 53" by (simp only: mult_less_cancel_right) simp
  moreover have "roundHalfEven a s \<le> a div 2 ^ s + 1"
    by (simp add: roundHalfEven_def Let_def)
  ultimately show ?thesis unfolding s_def by linarith
qed

text \<open>Integers up to \<open>2 ^ 53\<close> in magnitude are doubles, and sums up to there are exact.\<close>

lemma roundInteger_exact:
  assumes "\<bar>v\<bar> \<le> 2 ^ 53"
  shows "roundInteger v = v"
proof (cases "\<bar>v\<bar> < 2 ^ 53")
  case True
  then have "excessBits \<bar>v\<bar> = 0" by (intro excessBits_small) simp_all
  then show ?thesis by (simp add: roundInteger_def Let_def mult_sgn_abs)
next
  case False
  with assms have a: "\<bar>v\<bar> = 2 ^ 53" by simp
  have b: "bitlen ((2::int) ^ 53) = 54" using bitlen_twopow_add_eq [of 0 53] by simp
  have s: "excessBits (2 ^ 53) = 1" unfolding excessBits_def b by simp
  have r: "roundHalfEven (2 ^ 53) 1 = 2 ^ 52" by (simp add: roundHalfEven_def)
  have "roundInteger v =
          sgn v * (roundHalfEven (2 ^ 53) (excessBits (2 ^ 53)) * 2 ^ excessBits (2 ^ 53))"
    unfolding roundInteger_def Let_def a ..
  also have "\<dots> = sgn v * (2 ^ 52 * 2 ^ 1)" unfolding s r ..
  also have "\<dots> = sgn v * \<bar>v\<bar>" unfolding a by simp
  finally show ?thesis by (simp add: mult_sgn_abs)
qed

lemma numAdd_exact:
  assumes "\<bar>a + b\<bar> \<le> 2 ^ 53"
  shows "numAdd a b = a + b"
  using roundInteger_exact [OF assms] by (simp add: numAdd_def)

text \<open>Past \<open>2 ^ 53\<close> the sum with 1 is not exact: the odd integer is no double.\<close>

lemma numAdd_at_limit: "numAdd (2 ^ 53) 1 = 2 ^ 53"
  by code_simp

text \<open>\<open>floorDouble\<close> is the floor of the value, and a random number lies in \<open>[0, 1)\<close>.\<close>

lemma floorDouble_valueOf: "floorDouble d = \<lfloor>valueOf d\<rfloor>"
proof (cases "0 \<le> exponent d")
  case True
  have "\<lfloor>(of_int (mantissa d * 2 ^ nat (exponent d)) :: rat)\<rfloor> =
          mantissa d * 2 ^ nat (exponent d)"
    by (rule floor_of_int)
  then show ?thesis using True unfolding floorDouble_def valueOf_def by simp
next
  case False
  have "\<lfloor>(of_int (mantissa d) :: rat) / of_int (2 ^ nat (- exponent d))\<rfloor> =
          mantissa d div 2 ^ nat (- exponent d)"
    by (rule floor_divide_of_int_eq)
  then show ?thesis using False by (simp add: floorDouble_def valueOf_def)
qed

lemma isRandom_valueOf:
  assumes "isRandom d"
  shows "0 \<le> valueOf d \<and> valueOf d < 1"
proof -
  define t where "t = nat (- exponent d)"
  have e: "\<not> 0 \<le> exponent d" and t: "53 \<le> t"
    using assms unfolding isRandom_def t_def by linarith+
  have m: "0 \<le> mantissa d" "mantissa d < 2 ^ 53" using assms by (simp_all add: isRandom_def)
  have "(2::int) ^ 53 \<le> 2 ^ t" using t by (intro power_increasing) simp_all
  with m(2) have lt: "mantissa d < 2 ^ t" by linarith
  have v: "valueOf d = of_int (mantissa d) / of_int (2 ^ t)"
    using e by (simp add: valueOf_def t_def)
  have "0 \<le> valueOf d" unfolding v using m(1) by simp
  moreover have "valueOf d < 1"
    unfolding v using lt by (simp add: divide_less_eq flip: of_int_power)
  ultimately show ?thesis by blast
qed

text \<open>
  The rounded product of a random number and an integer \<open>n\<close> stays below \<open>n\<close>: the
  exact product is at most \<open>n - n * 2 ^ - 53\<close>, at least half a unit of the last place
  below \<open>n\<close>.
\<close>

lemma floor_random_mult:
  assumes d: "isRandom d" and n: "1 \<le> n" "n \<le> 1024"
  shows "0 \<le> floorDouble (mulByInt d n) \<and> floorDouble (mulByInt d n) < n"
proof -
  define m where "m = mantissa d"
  define e where "e = exponent d"
  define p where "p = m * n"
  define s where "s = excessBits p"
  define R where "R = roundHalfEven p s"
  have m: "0 \<le> m" "m \<le> 2 ^ 53 - 1" and e: "e \<le> - 53"
    using d by (simp_all add: isRandom_def m_def e_def)
  have p0: "0 \<le> p" using m n by (simp add: p_def)
  have pn: "p + n \<le> 2 ^ 53 * n"
  proof -
    have "m * n \<le> (2 ^ 53 - 1) * n" using m(2) n(1) by (intro mult_right_mono) simp_all
    then show ?thesis by (simp add: p_def algebra_simps)
  qed
  have R0: "0 \<le> R" unfolding R_def using roundHalfEven_nonneg [OF p0] .
  have sn: "(2::int) ^ s < 2 * n"
  proof (cases "p = 0 \<or> s = 0")
    case True
    then have "s = 0" by (auto simp: s_def excessBits_def)
    then show ?thesis using n by simp
  next
    case False
    then have "0 < p" using p0 by simp
    from excessBits_power [OF this] False have "2 ^ s * 2 ^ 52 \<le> p" by (simp add: s_def)
    also have "p < 2 ^ 53 * n" using pn n by simp
    finally have "(2::int) ^ s * 2 ^ 52 < (2 * n) * 2 ^ 52" by simp
    then show ?thesis by simp
  qed
  have s10: "s \<le> 10"
  proof (rule ccontr)
    assume "\<not> s \<le> 10"
    then have "11 \<le> s" by simp
    then have "(2::int) ^ 11 \<le> 2 ^ s" by (intro power_increasing) simp_all
    with sn n show False by simp
  qed
  have "2 * (R * 2 ^ s) \<le> 2 * p + 2 ^ s" unfolding R_def by (rule roundHalfEven_upper)
  also have "\<dots> < 2 * p + 2 * n" using sn by simp
  also have "\<dots> \<le> 2 * (2 ^ 53 * n)" using pn by simp
  finally have Rs: "R * 2 ^ s < 2 ^ 53 * n" by simp
  define t where "t = nat (- (e + int s))"
  have t: "53 \<le> t + s" "e + int s < 0" "int t = - (e + int s)"
    using e s10 by (simp_all add: t_def)
  have "(2::int) ^ 53 \<le> 2 ^ (t + s)" using t(1) by (intro power_increasing) simp_all
  then have "(2::int) ^ 53 * n \<le> 2 ^ (t + s) * n" using n by (intro mult_right_mono) simp_all
  also have "2 ^ (t + s) * n = (2 ^ t * n) * 2 ^ s" by (simp add: power_add)
  finally have "R * 2 ^ s < (2 ^ t * n) * 2 ^ s" using Rs by linarith
  then have Rt: "R < 2 ^ t * n" by (simp only: mult_less_cancel_right) simp
  have sg: "sgn p * R = R"
  proof (cases "p = 0")
    case True
    then show ?thesis by (simp add: R_def roundHalfEven_def)
  next
    case False
    then show ?thesis using p0 by simp
  qed
  have ap: "\<bar>p\<bar> = p" using p0 by simp
  have "mulByInt d n = \<lparr> mantissa = sgn p * R, exponent = e + int s \<rparr>"
    unfolding mulByInt_def Let_def m_def [symmetric] e_def [symmetric] p_def [symmetric] ap
      s_def [symmetric] R_def [symmetric] ..
  then have mul: "mulByInt d n = \<lparr> mantissa = R, exponent = e + int s \<rparr>"
    unfolding sg .
  have fl: "floorDouble (mulByInt d n) = R div 2 ^ t"
    unfolding mul using t(2) by (simp add: floorDouble_def t_def)
  have "0 \<le> R div 2 ^ t" using R0 by (simp add: pos_imp_zdiv_nonneg_iff)
  moreover have "R div 2 ^ t < n"
  proof -
    have "R div 2 ^ t * 2 ^ t + R mod 2 ^ t = R" by (rule div_mult_mod_eq)
    moreover have "0 \<le> R mod (2::int) ^ t" by simp
    ultimately have "R div 2 ^ t * 2 ^ t \<le> R" by linarith
    also have "R < n * 2 ^ t" using Rt by (simp add: mult.commute)
    finally show ?thesis by (simp only: mult_less_cancel_right) simp
  qed
  ultimately show ?thesis by (simp add: fl)
qed

text \<open>
  Two products whose rounding matters: the exact products \<open>3 - 3 * 2 ^ - 54\<close> round to
  3, so the factory picks the L piece (index 3) and column 3, where the floor of the
  exact products would give index 2 and column 2.
\<close>

lemma rounded_products_reach_three:
  "floorDouble (mulByInt nearestToThreeSevenths 7) = 3 \<and>
   floorDouble (mulByInt nearestToOneThird 9) = 3 \<and>
   \<lfloor>valueOf nearestToThreeSevenths * 7\<rfloor> = 2 \<and>
   \<lfloor>valueOf nearestToOneThird * 9\<rfloor> = 2 \<and>
   isRandom nearestToThreeSevenths \<and> isRandom nearestToOneThird \<and>
   createRandomBlock nearestToThreeSevenths nearestToOneThird =
     Inr \<lparr> shape = [[1, 0], [1, 0], [1, 1]], x = 3, y = 0 \<rparr>"
  by code_simp

section \<open>The block factory: catalog, row and spawn column\<close>

lemma blockTypes_cases:
  assumes "s \<in> set blockTypes"
  shows "s = [[1, 1], [1, 1]] \<or> s = [[1, 1, 1, 1]] \<or> s = [[0, 1, 0], [1, 1, 1]] \<or>
         s = [[1, 0], [1, 0], [1, 1]] \<or> s = [[0, 1], [0, 1], [1, 1]] \<or>
         s = [[0, 1, 1], [1, 1, 0]] \<or> s = [[1, 1, 0], [0, 1, 1]]"
  using assms by (simp add: blockTypes_def)

lemma blockTypes_rectangular:
  assumes "s \<in> set blockTypes"
  shows "s \<noteq> [] \<and> (\<forall>row \<in> set s. length row = length (s ! 0)) \<and>
         0 < length (s ! 0) \<and> length (s ! 0) \<le> 4 \<and> length s \<le> 3"
  using blockTypes_cases [OF assms] by auto

lemma createRandomBlock_props:
  assumes "isRandom r1" "isRandom r2"
  shows "\<exists>b. createRandomBlock r1 r2 = Inr b \<and> shape b \<in> set blockTypes \<and> y b = 0 \<and>
           0 \<le> x b \<and> x b \<le> GRID_WIDTH - int (length (shape b ! 0))"
proof -
  define i where "i = floorDouble (mulByInt r1 (int (length blockTypes)))"
  have len: "length blockTypes = 7" by (simp add: blockTypes_def)
  have irange: "0 \<le> i \<and> i < 7"
    using floor_random_mult [OF assms(1), of 7] by (simp add: i_def len)
  define s where "s = blockTypes ! nat i"
  have s_in: "s \<in> set blockTypes"
    unfolding s_def using irange len by (intro nth_mem) linarith
  note rect = blockTypes_rectangular [OF s_in]
  then obtain row0 rest where s_eq: "s = row0 # rest" by (cases s) auto
  define w where "w = int (length row0)"
  have w0: "w = int (length (s ! 0))" by (simp add: w_def s_eq)
  have "0 < length (s ! 0)" "length (s ! 0) \<le> 4" using rect by blast+
  then have wpos: "1 \<le> GRID_WIDTH - w + 1" "GRID_WIDTH - w + 1 \<le> 1024"
    unfolding w0 GRID_WIDTH_def by linarith+
  define b where "b = \<lparr> shape = s, x = floorDouble (mulByInt r2 (GRID_WIDTH - w + 1)), y = 0 \<rparr>"
  have cb: "createRandomBlock r1 r2 = Inr b"
    unfolding createRandomBlock_def Let_def i_def [symmetric] s_def [symmetric] b_def w_def
    using irange s_eq len by simp
  have xr: "0 \<le> x b \<and> x b \<le> GRID_WIDTH - w"
    using floor_random_mult [OF assms(2) wpos] by (simp add: b_def)
  have sb: "shape b = s" and yb: "y b = 0" by (simp_all add: b_def)
  show ?thesis
    apply (rule exI [of _ b])
    unfolding sb yb
    using cb s_in xr w0 by blast
qed

text \<open>
  C10. For all results \<open>r1\<close>, \<open>r2\<close> of the random source (the doubles in \<open>[0, 1)\<close>),
  \<^verbatim>\<open>createRandomBlock\<close> returns a block whose shape is one of the seven of the catalog,
  whose row is 0 and whose column lies between 0 and \<open>GRID_WIDTH\<close> minus the width of the
  shape (the length of its first row), inclusive; so every occupied cell of the block
  has a column in \<open>[0, GRID_WIDTH)\<close>. The products are the rounded products of doubles.
\<close>

theorem createRandomBlock_spawn:
  assumes "isRandom r1" "isRandom r2"
  shows "\<exists>b. createRandomBlock r1 r2 = Inr b \<and> shape b \<in> set blockTypes \<and>
           length blockTypes = 7 \<and> y b = 0 \<and> shape b \<noteq> [] \<and>
           0 \<le> x b \<and> x b \<le> GRID_WIDTH - int (length (shape b ! 0)) \<and>
           (\<forall>row \<in> set (shape b). \<forall>colIndex < length row.
              row ! colIndex = 1 \<longrightarrow>
                0 \<le> x b + int colIndex \<and> x b + int colIndex < GRID_WIDTH)"
proof -
  obtain b where b: "createRandomBlock r1 r2 = Inr b" "shape b \<in> set blockTypes" "y b = 0"
      "0 \<le> x b" "x b \<le> GRID_WIDTH - int (length (shape b ! 0))"
    using createRandomBlock_props [OF assms] by blast
  note rect = blockTypes_rectangular [OF b(2)]
  have inside: "\<forall>row \<in> set (shape b). \<forall>colIndex < length row.
      row ! colIndex = 1 \<longrightarrow> 0 \<le> x b + int colIndex \<and> x b + int colIndex < GRID_WIDTH"
  proof (intro ballI allI impI)
    fix row colIndex
    assume r: "row \<in> set (shape b)" and c: "colIndex < length row"
    from r rect have "length row = length (shape b ! 0)" by blast
    with c have "int colIndex < int (length (shape b ! 0))" by simp
    then show "0 \<le> x b + int colIndex \<and> x b + int colIndex < GRID_WIDTH"
      using b(4,5) by linarith
  qed
  have len: "length blockTypes = 7" by (simp add: blockTypes_def)
  have ne: "shape b \<noteq> []" using rect by blast
  show ?thesis using b inside len ne by blast
qed

theorem createRandomBlock_spawn_witness:
  "isRandom nearestToThreeSevenths \<and> isRandom rFifteenSixteenths \<and>
   createRandomBlock nearestToThreeSevenths rFifteenSixteenths =
     Inr \<lparr> shape = [[1, 0], [1, 0], [1, 1]], x = 8, y = 0 \<rparr> \<and>
   (\<exists>b. createRandomBlock nearestToThreeSevenths rFifteenSixteenths = Inr b \<and>
        shape b \<in> set blockTypes \<and>
        length blockTypes = 7 \<and> y b = 0 \<and> shape b \<noteq> [] \<and>
        0 \<le> x b \<and> x b \<le> GRID_WIDTH - int (length (shape b ! 0)) \<and>
        (\<forall>row \<in> set (shape b). \<forall>colIndex < length row.
           row ! colIndex = 1 \<longrightarrow>
             0 \<le> x b + int colIndex \<and> x b + int colIndex < GRID_WIDTH))"
proof -
  have h: "isRandom nearestToThreeSevenths" "isRandom rFifteenSixteenths" by code_simp+
  have e: "createRandomBlock nearestToThreeSevenths rFifteenSixteenths =
             Inr \<lparr> shape = [[1, 0], [1, 0], [1, 1]], x = 8, y = 0 \<rparr>"
    by code_simp
  show ?thesis using h e createRandomBlock_spawn [OF h] by blast
qed

section \<open>Move validation on a grid\<close>

lemma every_total:
  assumes "\<And>k. k < length xs \<Longrightarrow> f (xs ! k) (i + k) = Inr (p k)"
  shows "every f xs i = Inr (\<forall>k < length xs. p k)"
  using assms
proof (induction xs arbitrary: i p)
  case Nil
  then show ?case by simp
next
  case (Cons a as)
  have hd: "f a i = Inr (p 0)" using Cons.prems [of 0] by simp
  have tl: "every f as (Suc i) = Inr (\<forall>k < length as. p (Suc k))"
  proof (rule Cons.IH)
    fix k assume "k < length as"
    then show "f (as ! k) (Suc i + k) = Inr (p (Suc k))"
      using Cons.prems [of "Suc k"] by simp
  qed
  have split: "(\<forall>k < length (a # as). p k) \<longleftrightarrow> p 0 \<and> (\<forall>k < length as. p (Suc k))"
    by (auto simp: less_Suc_eq_0_disj)
  show ?case by (simp only: every.simps hd tl split) simp
qed

lemma cellFits_gridShaped:
  assumes "gridShaped g"
  shows "cellFits g boardX boardY =
           Inr (0 \<le> boardX \<and> boardX < GRID_WIDTH \<and> boardY < GRID_HEIGHT \<and>
                (boardY < 0 \<or> g ! nat boardY ! nat boardX = Some 0))"
proof (cases "0 \<le> boardX \<and> boardX < GRID_WIDTH \<and> boardY < GRID_HEIGHT \<and> 0 \<le> boardY")
  case True
  then have r: "nat boardY < length g" using assms by (simp add: gridShaped_def nat_less_iff)
  then have "g ! nat boardY \<in> set g" by simp
  then have "int (length (g ! nat boardY)) = GRID_WIDTH" using assms by (simp add: gridShaped_def)
  then have c: "nat boardX < length (g ! nat boardY)" using True by (simp add: nat_less_iff)
  show ?thesis using True r c by (simp add: cellFits_def Let_def)
next
  case False
  then show ?thesis by (auto simp: cellFits_def)
qed

lemma isValidMove_gridShaped:
  assumes "gridShaped (gameBoard s)"
  shows "isValidMove h s deltaX deltaY =
           Inr (\<forall>rowIndex < length (shape (h (currentBlock s))).
                \<forall>colIndex < length (shape (h (currentBlock s)) ! rowIndex).
                  shape (h (currentBlock s)) ! rowIndex ! colIndex = 1 \<longrightarrow>
                    0 \<le> x (h (currentBlock s)) + int colIndex + deltaX \<and>
                    x (h (currentBlock s)) + int colIndex + deltaX < GRID_WIDTH \<and>
                    y (h (currentBlock s)) + int rowIndex + deltaY < GRID_HEIGHT \<and>
                    (y (h (currentBlock s)) + int rowIndex + deltaY < 0 \<or>
                     gameBoard s ! nat (y (h (currentBlock s)) + int rowIndex + deltaY)
                                 ! nat (x (h (currentBlock s)) + int colIndex + deltaX) = Some 0))"
proof -
  define b where "b = h (currentBlock s)"
  define q where "q = (\<lambda>rowIndex colIndex.
      shape b ! rowIndex ! colIndex = 1 \<longrightarrow>
        0 \<le> x b + int colIndex + deltaX \<and>
        x b + int colIndex + deltaX < GRID_WIDTH \<and>
        y b + int rowIndex + deltaY < GRID_HEIGHT \<and>
        (y b + int rowIndex + deltaY < 0 \<or>
         gameBoard s ! nat (y b + int rowIndex + deltaY)
                     ! nat (x b + int colIndex + deltaX) = Some 0))"
  define inner where "inner = (\<lambda>rowIndex cell colIndex.
      if cell = (1::int) then
        cellFits (gameBoard s) (x b + int colIndex + deltaX) (y b + int rowIndex + deltaY)
      else Inr True)"
  have row: "every (inner rowIndex) (shape b ! rowIndex) 0 =
               Inr (\<forall>colIndex < length (shape b ! rowIndex). q rowIndex colIndex)"
    for rowIndex
  proof (rule every_total)
    fix k assume "k < length (shape b ! rowIndex)"
    show "inner rowIndex (shape b ! rowIndex ! k) (0 + k) = Inr (q rowIndex k)"
      by (simp add: inner_def q_def cellFits_gridShaped [OF assms])
  qed
  have "every (\<lambda>row rowIndex. every (inner rowIndex) row 0) (shape b) 0 =
          Inr (\<forall>rowIndex < length (shape b).
                 \<forall>colIndex < length (shape b ! rowIndex). q rowIndex colIndex)"
  proof (rule every_total)
    fix k assume "k < length (shape b)"
    show "every (inner (0 + k)) (shape b ! k) 0 =
            Inr (\<forall>colIndex < length (shape b ! k). q k colIndex)"
      using row [of k] by simp
  qed
  then show ?thesis
    unfolding isValidMove_def Let_def inner_def q_def b_def .
qed

text \<open>
  C2. On every grid (\<open>GRID_HEIGHT\<close> rows of \<open>GRID_WIDTH\<close> cells), for every piece and
  offset, \<^verbatim>\<open>isValidMove\<close> returns normally, and it accepts if and only if every cell of
  the shape that is 1 has, after the offset, a column in \<open>[0, GRID_WIDTH)\<close>, a row below
  \<open>GRID_HEIGHT\<close>, and either a row above the top or a grid cell equal to 0 at that row
  and column. The other cells of the shape impose no constraint.
\<close>

theorem isValidMove_iff:
  assumes "gridShaped (gameBoard s)"
  shows "\<exists>ok. isValidMove h s deltaX deltaY = Inr ok \<and>
           (ok \<longleftrightarrow>
             (\<forall>rowIndex < length (shape (h (currentBlock s))).
              \<forall>colIndex < length (shape (h (currentBlock s)) ! rowIndex).
                shape (h (currentBlock s)) ! rowIndex ! colIndex = 1 \<longrightarrow>
                  0 \<le> x (h (currentBlock s)) + int colIndex + deltaX \<and>
                  x (h (currentBlock s)) + int colIndex + deltaX < GRID_WIDTH \<and>
                  y (h (currentBlock s)) + int rowIndex + deltaY < GRID_HEIGHT \<and>
                  (y (h (currentBlock s)) + int rowIndex + deltaY < 0 \<or>
                   gameBoard s ! nat (y (h (currentBlock s)) + int rowIndex + deltaY)
                               ! nat (x (h (currentBlock s)) + int colIndex + deltaX) = Some 0)))"
  using isValidMove_gridShaped [OF assms, of h deltaX deltaY] by simp

theorem isValidMove_iff_witness:
  "gridShaped (gameBoard (state topOutWorld)) \<and>
   isValidMove (blocks topOutWorld) (state topOutWorld) 0 1 = Inr False \<and>
   isValidMove (blocks topOutWorld) (state topOutWorld) 0 0 = Inr True \<and>
   (\<exists>ok. isValidMove (blocks topOutWorld) (state topOutWorld) 0 1 = Inr ok \<and>
      (ok \<longleftrightarrow>
        (\<forall>rowIndex < length (shape (blocks topOutWorld (currentBlock (state topOutWorld)))).
         \<forall>colIndex < length (shape (blocks topOutWorld (currentBlock (state topOutWorld))) ! rowIndex).
           shape (blocks topOutWorld (currentBlock (state topOutWorld))) ! rowIndex ! colIndex = 1 \<longrightarrow>
             0 \<le> x (blocks topOutWorld (currentBlock (state topOutWorld))) + int colIndex + 0 \<and>
             x (blocks topOutWorld (currentBlock (state topOutWorld))) + int colIndex + 0 < GRID_WIDTH \<and>
             y (blocks topOutWorld (currentBlock (state topOutWorld))) + int rowIndex + 1 < GRID_HEIGHT \<and>
             (y (blocks topOutWorld (currentBlock (state topOutWorld))) + int rowIndex + 1 < 0 \<or>
              gameBoard (state topOutWorld)
                ! nat (y (blocks topOutWorld (currentBlock (state topOutWorld))) + int rowIndex + 1)
                ! nat (x (blocks topOutWorld (currentBlock (state topOutWorld))) + int colIndex + 0) = Some 0))))"
proof -
  have g: "gridShaped (gameBoard (state topOutWorld))" by code_simp
  have e1: "isValidMove (blocks topOutWorld) (state topOutWorld) 0 1 = Inr False" by code_simp
  have e0: "isValidMove (blocks topOutWorld) (state topOutWorld) 0 0 = Inr True" by code_simp
  show ?thesis
    using g e1 e0 isValidMove_iff [OF g, of "blocks topOutWorld" 0 1] by blast
qed

section \<open>Row clearing: what the loop counts\<close>

lemma clearRows_fields:
  "gameEnd (clearRows rows i st) = gameEnd st \<and>
   canRestart (clearRows rows i st) = canRestart st \<and>
   highScore (clearRows rows i st) = highScore st \<and>
   currentBlock (clearRows rows i st) = currentBlock st \<and>
   nextBlock (clearRows rows i st) = nextBlock st \<and>
   nextBlockShape (clearRows rows i st) = nextBlockShape st"
  by (induction rows arbitrary: i st) simp_all

lemma clearFullRows_fields:
  "gameEnd (clearFullRows st) = gameEnd st"
  "canRestart (clearFullRows st) = canRestart st"
  "highScore (clearFullRows st) = highScore st"
  "currentBlock (clearFullRows st) = currentBlock st"
  "nextBlock (clearFullRows st) = nextBlock st"
  "nextBlockShape (clearFullRows st) = nextBlockShape st"
  by (simp_all add: clearFullRows_def clearRows_fields)

text \<open>
  The loop awards 10 points and one level for every row of its copy that is full. The
  sums are exact as long as they stay within \<open>2 ^ 53\<close>.
\<close>

lemma clearRows_score:
  assumes "- (2 ^ 53) \<le> score st"
    and "score st + 10 * int (length (filter rowFull rows)) \<le> 2 ^ 53"
  shows "score (clearRows rows i st) = score st + 10 * int (length (filter rowFull rows))"
  using assms
proof (induction rows arbitrary: i st)
  case Nil
  then show ?case by simp
next
  case (Cons row rows)
  show ?case
  proof (cases "rowFull row")
    case True
    have ex: "numAdd (score st) 10 = score st + 10"
      using Cons.prems True by (intro numAdd_exact) simp
    define st' where "st' = st\<lparr> gameBoard := emptyRow # splice1 (GRID_HEIGHT - 1 - int i) (gameBoard st),
               score := numAdd (score st) 10, level := numAdd (level st) 1 \<rparr>"
    have s': "score st' = score st + 10" by (simp add: st'_def ex)
    have "score (clearRows rows (Suc i) st') = score st' + 10 * int (length (filter rowFull rows))"
      using Cons.prems True by (intro Cons.IH) (simp_all add: s')
    then show ?thesis using True by (simp add: st'_def [symmetric] s')
  next
    case False
    then show ?thesis using Cons by simp
  qed
qed

lemma clearRows_level:
  assumes "- (2 ^ 53) \<le> level st"
    and "level st + int (length (filter rowFull rows)) \<le> 2 ^ 53"
  shows "level (clearRows rows i st) = level st + int (length (filter rowFull rows))"
  using assms
proof (induction rows arbitrary: i st)
  case Nil
  then show ?case by simp
next
  case (Cons row rows)
  show ?case
  proof (cases "rowFull row")
    case True
    have ex: "numAdd (level st) 1 = level st + 1"
      using Cons.prems True by (intro numAdd_exact) simp
    define st' where "st' = st\<lparr> gameBoard := emptyRow # splice1 (GRID_HEIGHT - 1 - int i) (gameBoard st),
               score := numAdd (score st) 10, level := numAdd (level st) 1 \<rparr>"
    have s': "level st' = level st + 1" by (simp add: st'_def ex)
    have "level (clearRows rows (Suc i) st') = level st' + int (length (filter rowFull rows))"
      using Cons.prems True by (intro Cons.IH) (simp_all add: s')
    then show ?thesis using True by (simp add: st'_def [symmetric] s')
  next
    case False
    then show ?thesis using Cons by simp
  qed
qed

lemma clearFullRows_score:
  assumes "- (2 ^ 53) \<le> score st" "score st + 10 * int (fullRows (gameBoard st)) \<le> 2 ^ 53"
  shows "score (clearFullRows st) = score st + 10 * int (fullRows (gameBoard st))"
  using assms clearRows_score [of st "rev (gameBoard st)" 0]
  by (simp add: clearFullRows_def fullRows_def flip: rev_filter)

lemma clearFullRows_level:
  assumes "- (2 ^ 53) \<le> level st" "level st + int (fullRows (gameBoard st)) \<le> 2 ^ 53"
  shows "level (clearFullRows st) = level st + int (fullRows (gameBoard st))"
  using assms clearRows_level [of st "rev (gameBoard st)" 0]
  by (simp add: clearFullRows_def fullRows_def flip: rev_filter)

lemma clearRows_none:
  assumes "\<forall>row \<in> set rows. \<not> rowFull row"
  shows "clearRows rows i st = st"
  using assms by (induction rows arbitrary: i) simp_all

lemma clearFullRows_none:
  assumes "\<forall>row \<in> set (gameBoard st). \<not> rowFull row"
  shows "clearFullRows st = st"
  using assms by (simp add: clearFullRows_def clearRows_none)

text \<open>
  With exactly one full row the loop does what it is meant to do: the row is removed, an
  empty row is put on top, and the other rows keep their order.
\<close>

lemma clearRows_append:
  "clearRows (as @ bs) i st = clearRows bs (i + length as) (clearRows as i st)"
  by (induction as arbitrary: i st) simp_all

lemma clearFullRows_single:
  assumes shaped: "gridShaped (gameBoard st)"
    and i: "i < length (gameBoard st)"
    and full: "rowFull (gameBoard st ! i)"
    and others: "\<forall>j < length (gameBoard st). j \<noteq> i \<longrightarrow> \<not> rowFull (gameBoard st ! j)"
  shows "clearFullRows st =
           st\<lparr> gameBoard := emptyRow # take i (gameBoard st) @ drop (Suc i) (gameBoard st),
                score := numAdd (score st) 10, level := numAdd (level st) 1 \<rparr>"
proof -
  define g where "g = gameBoard st"
  have len: "int (length g) = GRID_HEIGHT" using shaped by (simp add: gridShaped_def g_def)
  have split: "g = take i g @ g ! i # drop (Suc i) g"
    using i by (simp add: g_def id_take_nth_drop)
  have rv: "rev g = rev (drop (Suc i) g) @ [g ! i] @ rev (take i g)"
    by (subst split) simp
  have above: "\<forall>row \<in> set (rev (take i g)). \<not> rowFull row"
  proof
    fix row assume "row \<in> set (rev (take i g))"
    then obtain j where "j < i" "row = g ! j"
      using i by (auto simp: in_set_conv_nth g_def)
    then show "\<not> rowFull row" using others i by (simp add: g_def)
  qed
  have below: "\<forall>row \<in> set (rev (drop (Suc i) g)). \<not> rowFull row"
  proof
    fix row assume "row \<in> set (rev (drop (Suc i) g))"
    then obtain j where "j < length g - Suc i" "row = g ! (Suc i + j)"
      by (auto simp: in_set_conv_nth)
    then show "\<not> rowFull row" using others by (simp add: g_def)
  qed
  have idx: "GRID_HEIGHT - 1 - int (length (rev (drop (Suc i) g))) = int i"
    using len i by (simp add: g_def)
  have sp: "splice1 (int i) g = take i g @ drop (Suc i) g"
    using i by (simp add: splice1_def Let_def g_def min_def)
  have "clearRows (rev g) 0 st =
          clearRows (rev (take i g)) (Suc (length (rev (drop (Suc i) g))))
            (st\<lparr> gameBoard := emptyRow # splice1 (int i) g,
                 score := numAdd (score st) 10, level := numAdd (level st) 1 \<rparr>)"
    unfolding rv clearRows_append clearRows_none [OF below]
    using full idx by (simp add: g_def)
  also have "\<dots> = st\<lparr> gameBoard := emptyRow # splice1 (int i) g,
                       score := numAdd (score st) 10, level := numAdd (level st) 1 \<rparr>"
    by (rule clearRows_none [OF above])
  finally show ?thesis by (simp add: clearFullRows_def g_def [symmetric] sp)
qed

section \<open>A tick that locks the piece\<close>

lemma reducer_Tick_over:
  assumes "\<not> gameEnd (state w)"
    and "isValidMove (blocks w) (state w) 0 1 = Inr False"
    and "stackBlock (gameBoard (state w)) (blocks w (currentBlock (state w))) (state w) = Inr (g, d)"
    and "isGameOver g = Inr True"
  shows "reducer r1 r2 w Tick =
           Inr (w\<lparr> state := (clearFullRows ((state w)\<lparr> gameBoard := g \<rparr>))
                  \<lparr> gameEnd := True, canRestart := True,
                    highScore := max (highScore (state w))
                                     (score (clearFullRows ((state w)\<lparr> gameBoard := g \<rparr>))) \<rparr> \<rparr>)"
  using assms by (simp add: reducer_def Let_def clearFullRows_fields max_def)

lemma reducer_Tick_landed:
  assumes "\<not> gameEnd (state w)"
    and "isValidMove (blocks w) (state w) 0 1 = Inr False"
    and "stackBlock (gameBoard (state w)) (blocks w (currentBlock (state w))) (state w) = Inr (g, d)"
    and "isGameOver g = Inr False"
    and "createRandomBlock r1 r2 = Inr newNextBlock"
  shows "reducer r1 r2 w Tick =
           Inr (w\<lparr> blocks := (blocks w)(nextRef w := newNextBlock),
                   nextRef := Suc (nextRef w),
                   state := (clearFullRows ((state w)\<lparr> gameBoard := g,
                                                      score := numAdd (score (state w)) 1 \<rparr>))
                     \<lparr> currentBlock := nextBlock (state w), nextBlock := nextRef w,
                       nextBlockShape := shape newNextBlock \<rparr> \<rparr>)"
  using assms by (simp add: reducer_def Let_def clearFullRows_fields)

text \<open>
  C5 as stated fails for a score that is no longer exact as a double. In
  \<open>landingWorldAtLimit\<close> the score is \<open>2 ^ 53\<close>; the tick locks the line on the floor,
  no row is full and the game goes on, and \<^verbatim>\<open>state.score + 1\<close> is \<open>2 ^ 53\<close> again.
\<close>

theorem tick_landing_at_limit:
  "\<not> gameEnd (state landingWorldAtLimit) \<and>
   isValidMove (blocks landingWorldAtLimit) (state landingWorldAtLimit) 0 1 = Inr False \<and>
   map_sum id fst (stackBlock (gameBoard (state landingWorldAtLimit))
     (currentPiece landingWorldAtLimit) (state landingWorldAtLimit)) =
     Inr (replicate 19 emptyRow @ [cells [0, 0, 0, 1, 1, 1, 1, 0, 0, 0]]) \<and>
   fullRows (replicate 19 emptyRow @ [cells [0, 0, 0, 1, 1, 1, 1, 0, 0, 0]]) = 0 \<and>
   isGameOver (replicate 19 emptyRow @ [cells [0, 0, 0, 1, 1, 1, 1, 0, 0, 0]]) = Inr False \<and>
   score (state landingWorldAtLimit) = 9007199254740992 \<and>
   map_sum id (score \<circ> state) (reducer rHalf rThreeQuarters landingWorldAtLimit Tick) =
     Inr 9007199254740992 \<and>
   map_sum id (gameEnd \<circ> state) (reducer rHalf rThreeQuarters landingWorldAtLimit Tick) =
     Inr False"
  by code_simp

text \<open>
  C5, amended. For every state whose score is at least \<open>- 2 ^ 53\<close> and below \<open>2 ^ 53\<close>,
  in which a tick locks the active piece (the game has not ended and the piece cannot
  move down), and the board after the lock has no full row and no occupied cell in row
  0, the reducer returns a state whose score is the previous score plus 1 and whose
  level is unchanged.
\<close>

theorem tick_landing_scores_one:
  assumes "\<not> gameEnd (state w)"
    and "isValidMove (blocks w) (state w) 0 1 = Inr False"
    and "stackBlock (gameBoard (state w)) (blocks w (currentBlock (state w))) (state w) = Inr (g, d)"
    and "\<forall>row \<in> set g. \<not> rowFull row"
    and "isGameOver g = Inr False"
    and "isRandom r1" "isRandom r2"
    and "- (2 ^ 53) \<le> score (state w)" "score (state w) < 2 ^ 53"
  shows "\<exists>w'. reducer r1 r2 w Tick = Inr w' \<and>
           score (state w') = score (state w) + 1 \<and>
           level (state w') = level (state w) \<and>
           \<not> gameEnd (state w')"
proof -
  obtain nb where nb: "createRandomBlock r1 r2 = Inr nb"
    using createRandomBlock_props [OF assms(6,7)] by blast
  have one: "numAdd (score (state w)) 1 = score (state w) + 1"
    using assms(8,9) by (intro numAdd_exact) simp
  have none: "clearFullRows ((state w)\<lparr> gameBoard := g, score := numAdd (score (state w)) 1 \<rparr>) =
                (state w)\<lparr> gameBoard := g, score := numAdd (score (state w)) 1 \<rparr>"
    using assms(4) by (intro clearFullRows_none) simp
  show ?thesis
    unfolding reducer_Tick_landed [OF assms(1,2,3,5) nb] none
    using assms(1) by (simp add: one)
qed

theorem tick_landing_scores_one_witness:
  "\<not> gameEnd (state landingWorld) \<and>
   isValidMove (blocks landingWorld) (state landingWorld) 0 1 = Inr False \<and>
   stackBlock (gameBoard (state landingWorld))
     (blocks landingWorld (currentBlock (state landingWorld))) (state landingWorld) =
     Inr (replicate 19 emptyRow @ [cells [0, 0, 0, 1, 1, 1, 1, 0, 0, 0]],
          (state landingWorld)\<lparr> gameBoard := replicate 19 emptyRow @ [cells [0, 0, 0, 1, 1, 1, 1, 0, 0, 0]],
                                 score := 1 \<rparr>) \<and>
   fullRows (replicate 19 emptyRow @ [cells [0, 0, 0, 1, 1, 1, 1, 0, 0, 0]]) = 0 \<and>
   isGameOver (replicate 19 emptyRow @ [cells [0, 0, 0, 1, 1, 1, 1, 0, 0, 0]]) = Inr False \<and>
   isRandom rHalf \<and> isRandom rThreeQuarters \<and>
   score (state landingWorld) = 0 \<and> level (state landingWorld) = 1 \<and>
   (\<exists>w'. reducer rHalf rThreeQuarters landingWorld Tick = Inr w' \<and>
         score (state w') = score (state landingWorld) + 1 \<and>
         level (state w') = level (state landingWorld) \<and>
         \<not> gameEnd (state w'))"
proof -
  have h1: "\<not> gameEnd (state landingWorld)" by code_simp
  have h2: "isValidMove (blocks landingWorld) (state landingWorld) 0 1 = Inr False" by code_simp
  have h3: "stackBlock (gameBoard (state landingWorld))
     (blocks landingWorld (currentBlock (state landingWorld))) (state landingWorld) =
     Inr (replicate 19 emptyRow @ [cells [0, 0, 0, 1, 1, 1, 1, 0, 0, 0]],
          (state landingWorld)\<lparr> gameBoard := replicate 19 emptyRow @ [cells [0, 0, 0, 1, 1, 1, 1, 0, 0, 0]],
                                 score := 1 \<rparr>)" by code_simp
  have h4: "\<forall>row \<in> set (replicate 19 emptyRow @ [cells [0, 0, 0, 1, 1, 1, 1, 0, 0, 0]]). \<not> rowFull row"
    by code_simp
  have h5: "isGameOver (replicate 19 emptyRow @ [cells [0, 0, 0, 1, 1, 1, 1, 0, 0, 0]]) = Inr False"
    by code_simp
  have r: "isRandom rHalf" "isRandom rThreeQuarters" by code_simp+
  have v: "score (state landingWorld) = 0" "level (state landingWorld) = 1" by code_simp+
  have b: "- (2 ^ 53) \<le> score (state landingWorld)" "score (state landingWorld) < 2 ^ 53"
    by (simp_all add: v)
  have k: "fullRows (replicate 19 emptyRow @ [cells [0, 0, 0, 1, 1, 1, 1, 0, 0, 0]]) = 0"
    by code_simp
  show ?thesis
    using h1 h2 h3 k h5 r v tick_landing_scores_one [OF h1 h2 h3 h4 h5 r b] by blast
qed

text \<open>
  C7 as stated fails for a score that is no longer exact as a double. In
  \<open>twoRowsWorldAtLimit\<close> the score is \<open>2 ^ 53\<close>; the tick locks the square, two rows
  are full and the game goes on. \<^verbatim>\<open>state.score + 1\<close> is \<open>2 ^ 53\<close> again, and the two
  awards of 10 give \<open>2 ^ 53 + 20\<close>, not \<open>2 ^ 53 + 21\<close>.
\<close>

theorem tick_clear_at_limit:
  "\<not> gameEnd (state twoRowsWorldAtLimit) \<and>
   isValidMove (blocks twoRowsWorldAtLimit) (state twoRowsWorldAtLimit) 0 1 = Inr False \<and>
   map_sum id fst (stackBlock (gameBoard (state twoRowsWorldAtLimit))
     (currentPiece twoRowsWorldAtLimit) (state twoRowsWorldAtLimit)) =
     Inr (replicate 17 emptyRow @
            [cells [1, 0, 1, 0, 0, 0, 0, 0, 0, 0],
             cells [1, 1, 1, 1, 1, 1, 1, 1, 1, 1],
             cells [1, 1, 1, 1, 1, 1, 1, 1, 1, 1]]) \<and>
   fullRows (replicate 17 emptyRow @
            [cells [1, 0, 1, 0, 0, 0, 0, 0, 0, 0],
             cells [1, 1, 1, 1, 1, 1, 1, 1, 1, 1],
             cells [1, 1, 1, 1, 1, 1, 1, 1, 1, 1]]) = 2 \<and>
   isGameOver (replicate 17 emptyRow @
            [cells [1, 0, 1, 0, 0, 0, 0, 0, 0, 0],
             cells [1, 1, 1, 1, 1, 1, 1, 1, 1, 1],
             cells [1, 1, 1, 1, 1, 1, 1, 1, 1, 1]]) = Inr False \<and>
   score (state twoRowsWorldAtLimit) = 9007199254740992 \<and>
   map_sum id (score \<circ> state) (reducer rHalf rThreeQuarters twoRowsWorldAtLimit Tick) =
     Inr (9007199254740992 + 20) \<and>
   map_sum id (gameEnd \<circ> state) (reducer rHalf rThreeQuarters twoRowsWorldAtLimit Tick) =
     Inr False"
  by code_simp

text \<open>
  C7, amended. For every state in which a tick locks the active piece, \<open>k\<close> rows of the
  board after the lock are full and the game does not end, and whose score and level are
  at least \<open>- 2 ^ 53\<close> with \<open>score + 1 + 10 * k \<le> 2 ^ 53\<close> and \<open>level + k \<le> 2 ^ 53\<close>, the
  reducer returns a state whose score is the previous score plus \<open>1 + 10 * k\<close> and whose
  level is the previous level plus \<open>k\<close>: the landing point is granted in the same tick
  as the points of the rows. (The statement holds for every \<open>k\<close>, so in particular for
  \<open>k \<ge> 1\<close>.)
\<close>

theorem tick_clear_scores:
  assumes "\<not> gameEnd (state w)"
    and "isValidMove (blocks w) (state w) 0 1 = Inr False"
    and "stackBlock (gameBoard (state w)) (blocks w (currentBlock (state w))) (state w) = Inr (g, d)"
    and "fullRows g = k"
    and "isGameOver g = Inr False"
    and "isRandom r1" "isRandom r2"
    and "- (2 ^ 53) \<le> score (state w)" "score (state w) + 1 + 10 * int k \<le> 2 ^ 53"
    and "- (2 ^ 53) \<le> level (state w)" "level (state w) + int k \<le> 2 ^ 53"
  shows "\<exists>w'. reducer r1 r2 w Tick = Inr w' \<and>
           score (state w') = score (state w) + 1 + 10 * int k \<and>
           level (state w') = level (state w) + int k \<and>
           \<not> gameEnd (state w')"
proof -
  obtain nb where nb: "createRandomBlock r1 r2 = Inr nb"
    using createRandomBlock_props [OF assms(6,7)] by blast
  define st where "st = (state w)\<lparr> gameBoard := g, score := numAdd (score (state w)) 1 \<rparr>"
  have one: "numAdd (score (state w)) 1 = score (state w) + 1"
    using assms(8,9) by (intro numAdd_exact) simp
  have st: "score st = score (state w) + 1" "level st = level (state w)" "gameBoard st = g"
      "gameEnd st = gameEnd (state w)"
    by (simp_all add: st_def one)
  have sc: "score (clearFullRows st) = score st + 10 * int (fullRows (gameBoard st))"
    using assms(4,8,9) by (intro clearFullRows_score) (simp_all add: st)
  have lv: "level (clearFullRows st) = level st + int (fullRows (gameBoard st))"
    using assms(4,10,11) by (intro clearFullRows_level) (simp_all add: st)
  show ?thesis
    using assms(1,4) sc lv
    by (simp add: reducer_Tick_landed [OF assms(1,2,3,5) nb] st_def [symmetric] st
        clearFullRows_fields)
qed

theorem tick_clear_scores_witness:
  "\<not> gameEnd (state twoRowsWorld) \<and>
   isValidMove (blocks twoRowsWorld) (state twoRowsWorld) 0 1 = Inr False \<and>
   stackBlock (gameBoard (state twoRowsWorld))
     (blocks twoRowsWorld (currentBlock (state twoRowsWorld))) (state twoRowsWorld) =
     Inr (replicate 17 emptyRow @
            [cells [1, 0, 1, 0, 0, 0, 0, 0, 0, 0],
             cells [1, 1, 1, 1, 1, 1, 1, 1, 1, 1],
             cells [1, 1, 1, 1, 1, 1, 1, 1, 1, 1]],
          (state twoRowsWorld)\<lparr> gameBoard := replicate 17 emptyRow @
            [cells [1, 0, 1, 0, 0, 0, 0, 0, 0, 0],
             cells [1, 1, 1, 1, 1, 1, 1, 1, 1, 1],
             cells [1, 1, 1, 1, 1, 1, 1, 1, 1, 1]], score := 6 \<rparr>) \<and>
   fullRows (replicate 17 emptyRow @
            [cells [1, 0, 1, 0, 0, 0, 0, 0, 0, 0],
             cells [1, 1, 1, 1, 1, 1, 1, 1, 1, 1],
             cells [1, 1, 1, 1, 1, 1, 1, 1, 1, 1]]) = 2 \<and>
   isGameOver (replicate 17 emptyRow @
            [cells [1, 0, 1, 0, 0, 0, 0, 0, 0, 0],
             cells [1, 1, 1, 1, 1, 1, 1, 1, 1, 1],
             cells [1, 1, 1, 1, 1, 1, 1, 1, 1, 1]]) = Inr False \<and>
   isRandom rHalf \<and> isRandom rThreeQuarters \<and>
   score (state twoRowsWorld) = 5 \<and> level (state twoRowsWorld) = 1 \<and>
   (\<exists>w'. reducer rHalf rThreeQuarters twoRowsWorld Tick = Inr w' \<and>
         score (state w') = 26 \<and> level (state w') = 3 \<and> \<not> gameEnd (state w'))"
proof -
  define g where "g = replicate 17 emptyRow @
            [cells [1, 0, 1, 0, 0, 0, 0, 0, 0, 0],
             cells [1, 1, 1, 1, 1, 1, 1, 1, 1, 1],
             cells [1, 1, 1, 1, 1, 1, 1, 1, 1, 1]]"
  have h1: "\<not> gameEnd (state twoRowsWorld)" by code_simp
  have h2: "isValidMove (blocks twoRowsWorld) (state twoRowsWorld) 0 1 = Inr False" by code_simp
  have h3: "stackBlock (gameBoard (state twoRowsWorld))
     (blocks twoRowsWorld (currentBlock (state twoRowsWorld))) (state twoRowsWorld) =
     Inr (g, (state twoRowsWorld)\<lparr> gameBoard := g, score := 6 \<rparr>)"
    unfolding g_def by code_simp
  have h4: "fullRows g = 2" unfolding g_def by code_simp
  have h5: "isGameOver g = Inr False" unfolding g_def by code_simp
  have r: "isRandom rHalf" "isRandom rThreeQuarters" by code_simp+
  have v: "score (state twoRowsWorld) = 5" "level (state twoRowsWorld) = 1" by code_simp+
  have b: "- (2 ^ 53) \<le> score (state twoRowsWorld)"
      "score (state twoRowsWorld) + 1 + 10 * int 2 \<le> 2 ^ 53"
      "- (2 ^ 53) \<le> level (state twoRowsWorld)" "level (state twoRowsWorld) + int 2 \<le> 2 ^ 53"
    by (simp_all add: v)
  show ?thesis
    using h1 h2 h3 h4 h5 r v tick_clear_scores [OF h1 h2 h3 h4 h5 r b]
    unfolding g_def by auto
qed

text \<open>
  C6. For every state in which a tick locks the active piece and the board after the
  lock has an occupied cell in row 0, the reducer returns a state with \<open>gameEnd\<close> and
  \<open>canRestart\<close> true, the board, score and level as computed by the row-clearing loop
  (no landing point; 10 points and one level for each of the \<open>k\<close> full rows, exactly so
  while these sums stay within \<open>2 ^ 53\<close>), \<open>highScore\<close> the maximum of the previous high
  score and the computed score, and the active piece left as it was: the same block
  object, and no block of the store changed.
\<close>

theorem tick_game_over:
  assumes "\<not> gameEnd (state w)"
    and "isValidMove (blocks w) (state w) 0 1 = Inr False"
    and "stackBlock (gameBoard (state w)) (blocks w (currentBlock (state w))) (state w) = Inr (g, d)"
    and "isGameOver g = Inr True"
  shows "\<exists>w'. reducer r1 r2 w Tick = Inr w' \<and>
           gameEnd (state w') \<and> canRestart (state w') \<and>
           gameBoard (state w') = gameBoard (clearFullRows ((state w)\<lparr> gameBoard := g \<rparr>)) \<and>
           score (state w') = score (clearFullRows ((state w)\<lparr> gameBoard := g \<rparr>)) \<and>
           level (state w') = level (clearFullRows ((state w)\<lparr> gameBoard := g \<rparr>)) \<and>
           (- (2 ^ 53) \<le> score (state w) \<and> score (state w) + 10 * int (fullRows g) \<le> 2 ^ 53 \<longrightarrow>
              score (state w') = score (state w) + 10 * int (fullRows g)) \<and>
           (- (2 ^ 53) \<le> level (state w) \<and> level (state w) + int (fullRows g) \<le> 2 ^ 53 \<longrightarrow>
              level (state w') = level (state w) + int (fullRows g)) \<and>
           highScore (state w') = max (highScore (state w)) (score (state w')) \<and>
           currentBlock (state w') = currentBlock (state w) \<and>
           nextBlock (state w') = nextBlock (state w) \<and>
           blocks w' = blocks w"
proof -
  define st where "st = (state w)\<lparr> gameBoard := g \<rparr>"
  have sc: "score (clearFullRows st) = score (state w) + 10 * int (fullRows g)"
    if "- (2 ^ 53) \<le> score (state w) \<and> score (state w) + 10 * int (fullRows g) \<le> 2 ^ 53"
    using that clearFullRows_score [of st] by (simp add: st_def)
  have lv: "level (clearFullRows st) = level (state w) + int (fullRows g)"
    if "- (2 ^ 53) \<le> level (state w) \<and> level (state w) + int (fullRows g) \<le> 2 ^ 53"
    using that clearFullRows_level [of st] by (simp add: st_def)
  have st: "currentBlock st = currentBlock (state w)" "nextBlock st = nextBlock (state w)"
    by (simp_all add: st_def)
  show ?thesis
    using sc lv
    by (simp add: reducer_Tick_over [OF assms] st_def [symmetric] clearFullRows_fields st)
qed

theorem tick_game_over_witness:
  "\<not> gameEnd (state topOutWorld) \<and>
   isValidMove (blocks topOutWorld) (state topOutWorld) 0 1 = Inr False \<and>
   (\<exists>g d. stackBlock (gameBoard (state topOutWorld))
            (blocks topOutWorld (currentBlock (state topOutWorld))) (state topOutWorld) = Inr (g, d) \<and>
          isGameOver g = Inr True \<and> fullRows g = 1) \<and>
   score (state topOutWorld) = 9 \<and> highScore (state topOutWorld) = 4 \<and>
   (\<exists>w'. reducer rHalf rThreeQuarters topOutWorld Tick = Inr w' \<and>
         gameEnd (state w') \<and> canRestart (state w') \<and>
         score (state w') = 19 \<and> level (state w') = 2 \<and> highScore (state w') = 19 \<and>
         currentBlock (state w') = currentBlock (state topOutWorld) \<and>
         blocks w' = blocks topOutWorld)"
proof -
  define g where "g =
     [cells [0, 0, 0, 0, 1, 0, 0, 0, 0, 0],
      cells [0, 0, 0, 0, 1, 0, 0, 0, 0, 0],
      cells [1, 1, 1, 1, 1, 1, 1, 1, 1, 1]] @ drop 3 (gameBoard (state topOutWorld))"
  have h1: "\<not> gameEnd (state topOutWorld)" by code_simp
  have h2: "isValidMove (blocks topOutWorld) (state topOutWorld) 0 1 = Inr False" by code_simp
  have h3: "stackBlock (gameBoard (state topOutWorld))
            (blocks topOutWorld (currentBlock (state topOutWorld))) (state topOutWorld) =
     Inr (g, (state topOutWorld)\<lparr> gameBoard := g, score := 10 \<rparr>)"
    unfolding g_def by code_simp
  have h4: "isGameOver g = Inr True" unfolding g_def by code_simp
  have k: "fullRows g = 1" unfolding g_def by code_simp
  have v: "score (state topOutWorld) = 9" "highScore (state topOutWorld) = 4"
    "level (state topOutWorld) = 1" by code_simp+
  show ?thesis
    using h1 h2 h3 h4 k v tick_game_over [OF h1 h2 h3 h4, of rHalf rThreeQuarters]
    by auto
qed

section \<open>Steps of the reducer: the restart gate and the high score\<close>

lemma initialWorld_flags:
  assumes "initialWorld r1 r2 r3 r4 = Inr w"
  shows "\<not> canRestart (state w) \<and> \<not> gameEnd (state w) \<and> highScore (state w) = 0 \<and>
         score (state w) = 0 \<and> level (state w) = 1"
  using assms by (auto simp: initialWorld_def Let_def split: sum.splits)

lemma reducer_keeps_gate:
  assumes "reducer r1 r2 w event = Inr w'"
    and "canRestart (state w) \<longrightarrow> gameEnd (state w)"
  shows "canRestart (state w') \<longrightarrow> gameEnd (state w')"
proof (cases event)
  case KeyA
  then show ?thesis using assms by (auto simp: reducer_def Let_def split: sum.splits if_splits)
next
  case KeyD
  then show ?thesis using assms by (auto simp: reducer_def Let_def split: sum.splits if_splits)
next
  case KeyS
  then show ?thesis using assms by (auto simp: reducer_def Let_def split: sum.splits if_splits)
next
  case KeyR
  then show ?thesis using assms by (auto simp: reducer_def Let_def split: if_splits)
next
  case Tick
  then show ?thesis using assms
    by (auto simp: reducer_def Let_def clearFullRows_fields split: sum.splits if_splits prod.splits)
qed

lemma reducer_highScore:
  assumes "reducer r1 r2 w event = Inr w'"
  shows "highScore (state w) \<le> highScore (state w')"
proof (cases event)
  case KeyA
  then show ?thesis using assms by (auto simp: reducer_def Let_def split: sum.splits if_splits)
next
  case KeyD
  then show ?thesis using assms by (auto simp: reducer_def Let_def split: sum.splits if_splits)
next
  case KeyS
  then show ?thesis using assms by (auto simp: reducer_def Let_def split: sum.splits if_splits)
next
  case KeyR
  then show ?thesis using assms by (auto simp: reducer_def Let_def split: if_splits)
next
  case Tick
  then show ?thesis using assms
    by (auto simp: reducer_def Let_def clearFullRows_fields split: sum.splits if_splits prod.splits)
qed

lemma reachable_run:
  assumes "reachable w" "randomsInRange events" "run w events = Inr w'"
  shows "reachable w'"
  using assms
proof (induction events arbitrary: w)
  case Nil
  then show ?case by simp
next
  case (Cons ev events)
  obtain r1 r2 event where ev: "ev = (r1, r2, event)" by (cases ev) auto
  from Cons.prems(3) obtain w1 where w1: "reducer r1 r2 w event = Inr w1" "run w1 events = Inr w'"
    by (auto simp: ev split: sum.splits)
  have rng: "isRandom r1" "isRandom r2" "randomsInRange events"
    using Cons.prems(2) by (simp_all add: randomsInRange_def ev)
  have "reachable w1" using reachable_step [OF Cons.prems(1) rng(1,2) w1(1)] .
  then show ?case using Cons.IH rng(3) w1(2) by blast
qed

section \<open>The reducer raises no exception on reachable worlds\<close>

lemma createRandomBlock_inBounds:
  assumes "isRandom r1" "isRandom r2"
  shows "\<exists>b. createRandomBlock r1 r2 = Inr b \<and> blockInBounds b"
proof -
  obtain b where b: "createRandomBlock r1 r2 = Inr b" "shape b \<in> set blockTypes" "y b = 0"
      "0 \<le> x b" "x b \<le> GRID_WIDTH - int (length (shape b ! 0))"
    using createRandomBlock_props [OF assms] by blast
  note rect = blockTypes_rectangular [OF b(2)]
  have "blockInBounds b"
    unfolding blockInBounds_def
  proof (intro allI impI)
    fix rowIndex colIndex
    assume r: "rowIndex < length (shape b)" and c: "colIndex < length (shape b ! rowIndex)"
    from r have "shape b ! rowIndex \<in> set (shape b)" by simp
    with rect have "length (shape b ! rowIndex) = length (shape b ! 0)" by blast
    with c have c': "int colIndex < int (length (shape b ! 0))" by simp
    from rect r have r': "int rowIndex < 3" by linarith
    show "0 \<le> x b + int colIndex \<and> x b + int colIndex < GRID_WIDTH \<and>
          y b + int rowIndex < GRID_HEIGHT"
      using b(3,4,5) c' r' by (simp add: GRID_HEIGHT_def)
  qed
  with b(1) show ?thesis by blast
qed

lemma isValidMove_moved_inBounds:
  assumes "gridShaped (gameBoard s)" and "isValidMove h s deltaX deltaY = Inr True"
  shows "blockInBounds ((h (currentBlock s))\<lparr> x := x (h (currentBlock s)) + deltaX,
                                              y := y (h (currentBlock s)) + deltaY \<rparr>)"
  using assms(2) unfolding isValidMove_gridShaped [OF assms(1)] blockInBounds_def
  by (simp add: add.commute add.left_commute)

lemma forEach_invariant:
  assumes "P s"
    and "\<And>k t. k < length xs \<Longrightarrow> P t \<Longrightarrow> \<exists>t'. f (xs ! k) (i + k) t = Inr t' \<and> P t'"
  shows "\<exists>s'. forEach f xs i s = Inr s' \<and> P s'"
  using assms
proof (induction xs arbitrary: i s)
  case Nil
  then show ?case by simp
next
  case (Cons a as)
  obtain s1 where s1: "f a i s = Inr s1" "P s1"
    using Cons.prems(2) [of 0 s] Cons.prems(1) by auto
  have "\<exists>s'. forEach f as (Suc i) s1 = Inr s' \<and> P s'"
  proof (rule Cons.IH [OF s1(2)])
    fix k t assume "k < length as" "P t"
    then show "\<exists>t'. f (as ! k) (Suc i + k) t = Inr t' \<and> P t'"
      using Cons.prems(2) [of "Suc k" t] by simp
  qed
  then show ?case by (simp add: s1(1))
qed

lemma gridShaped_update:
  assumes "gridShaped g" "int (length row) = GRID_WIDTH"
  shows "gridShaped (g[n := row])"
  using assms by (auto simp: gridShaped_def dest!: set_update_subset_insert [THEN subsetD])

lemma boardSet_gridShaped:
  assumes "gridShaped g" "0 \<le> boardY" "boardY < GRID_HEIGHT" "0 \<le> boardX" "boardX < GRID_WIDTH"
  shows "\<exists>g'. boardSet g boardY boardX = Inr g' \<and> gridShaped g'"
proof -
  have r: "nat boardY < length g" using assms by (simp add: gridShaped_def nat_less_iff)
  then have "g ! nat boardY \<in> set g" by simp
  then have w: "int (length (g ! nat boardY)) = GRID_WIDTH" using assms(1) by (simp add: gridShaped_def)
  then have c: "nat boardX < length (g ! nat boardY)" using assms by (simp add: nat_less_iff)
  have "int (length (arraySet (g ! nat boardY) boardX 1)) = GRID_WIDTH"
    using c w assms(4) by (simp add: arraySet_def)
  then show ?thesis
    using r assms(1) by (simp add: boardSet_def gridShaped_update)
qed

lemma stackBlock_gridShaped:
  assumes "gridShaped g" "blockInBounds b"
  shows "\<exists>g' d. stackBlock g b st = Inr (g', d) \<and> gridShaped g'"
proof -
  define inner where "inner = (\<lambda>rowIdx (cell::int) colIdx g.
      if cell = 1 then
        (let boardX = x b + int colIdx; boardY = y b + int rowIdx
         in if boardY \<ge> 0 then boardSet g boardY boardX else Inr g)
      else Inr g)"
  have cell: "\<exists>t'. inner rowIdx (shape b ! rowIdx ! k) k t = Inr t' \<and> gridShaped t'"
    if "rowIdx < length (shape b)" "k < length (shape b ! rowIdx)" "gridShaped t" for rowIdx k t
  proof (cases "shape b ! rowIdx ! k = 1 \<and> 0 \<le> y b + int rowIdx")
    case True
    then have "0 \<le> x b + int k \<and> x b + int k < GRID_WIDTH \<and> y b + int rowIdx < GRID_HEIGHT"
      using assms(2) that(1,2) unfolding blockInBounds_def by blast
    then show ?thesis
      using True boardSet_gridShaped [OF that(3), of "y b + int rowIdx" "x b + int k"]
      by (simp add: inner_def Let_def)
  next
    case False
    then show ?thesis using that(3) by (auto simp: inner_def Let_def)
  qed
  have row: "\<exists>t'. forEach (inner rowIdx) (shape b ! rowIdx) 0 t = Inr t' \<and> gridShaped t'"
    if "rowIdx < length (shape b)" "gridShaped t" for rowIdx t
  proof (rule forEach_invariant [where P = gridShaped, OF that(2)])
    fix k u assume "k < length (shape b ! rowIdx)" "gridShaped u"
    then show "\<exists>t'. inner rowIdx (shape b ! rowIdx ! k) (0 + k) u = Inr t' \<and> gridShaped t'"
      using cell [OF that(1)] by simp
  qed
  have "\<exists>g'. forEach (\<lambda>row rowIdx. forEach (inner rowIdx) row 0) (shape b) 0 g = Inr g' \<and> gridShaped g'"
  proof (rule forEach_invariant [where P = gridShaped, OF assms(1)])
    fix k u assume "k < length (shape b)" "gridShaped u"
    then show "\<exists>t'. forEach (inner (0 + k)) (shape b ! k) 0 u = Inr t' \<and> gridShaped t'"
      using row by simp
  qed
  then obtain g' where g': "forEach (\<lambda>row rowIdx. forEach (inner rowIdx) row 0) (shape b) 0 g = Inr g'"
      "gridShaped g'" by blast
  have "stackBlock g b st = Inr (g', st\<lparr> gameBoard := g', score := numAdd (score st) 1 \<rparr>)"
    using g'(1) unfolding stackBlock_def inner_def Let_def by simp
  with g'(2) show ?thesis by blast
qed

lemma isGameOver_gridShaped:
  assumes "gridShaped g"
  shows "\<exists>over. isGameOver g = Inr over"
  using assms by (cases g) (auto simp: isGameOver_def gridShaped_def GRID_HEIGHT_def)

lemma gridShaped_emptyBoard: "gridShaped emptyBoard"
  by (simp add: gridShaped_def emptyBoard_def emptyRow_def GRID_HEIGHT_def GRID_WIDTH_def)

lemma gridShaped_splice:
  assumes "gridShaped g" "0 \<le> k" "k < GRID_HEIGHT"
  shows "gridShaped (emptyRow # splice1 k g)"
proof -
  have len: "int (length g) = GRID_HEIGHT" using assms(1) by (simp add: gridShaped_def)
  have k: "nat k < length g" using assms(2,3) len by linarith
  have sp: "splice1 k g = take (nat k) g @ drop (Suc (nat k)) g"
    using assms(2,3) len by (simp add: splice1_def Let_def min_def)
  have l: "length (splice1 k g) = length g - 1" using k unfolding sp by simp
  have sub: "set (splice1 k g) \<subseteq> set g"
    unfolding sp using set_take_subset set_drop_subset by fastforce
  have e: "int (length emptyRow) = GRID_WIDTH" by (simp add: emptyRow_def GRID_WIDTH_def)
  show ?thesis
    using assms(1) l sub e k unfolding gridShaped_def by auto
qed

lemma clearRows_gridShaped:
  assumes "gridShaped (gameBoard st)" "int i + int (length rows) \<le> GRID_HEIGHT"
  shows "gridShaped (gameBoard (clearRows rows i st))"
  using assms
proof (induction rows arbitrary: i st)
  case Nil
  then show ?case by simp
next
  case (Cons row rows)
  have k: "0 \<le> GRID_HEIGHT - 1 - int i" "GRID_HEIGHT - 1 - int i < GRID_HEIGHT"
    using Cons.prems(2) by simp_all
  have step: "gridShaped (gameBoard (if rowFull row then
          st\<lparr> gameBoard := emptyRow # splice1 (GRID_HEIGHT - 1 - int i) (gameBoard st),
               score := numAdd (score st) 10, level := numAdd (level st) 1 \<rparr> else st))"
    using gridShaped_splice [OF Cons.prems(1) k] Cons.prems(1) by simp
  have "int (Suc i) + int (length rows) \<le> GRID_HEIGHT" using Cons.prems(2) by simp
  from Cons.IH [OF step this] show ?case by simp
qed

lemma clearFullRows_gridShaped:
  assumes "gridShaped (gameBoard st)"
  shows "gridShaped (gameBoard (clearFullRows st))"
  unfolding clearFullRows_def
  using assms by (intro clearRows_gridShaped) (simp_all add: gridShaped_def)

lemma worldInv_initialWorld:
  assumes "isRandom r1" "isRandom r2" "isRandom r3" "isRandom r4"
  shows "\<exists>w. initialWorld r1 r2 r3 r4 = Inr w \<and> worldInv w"
proof -
  obtain b0 where b0: "createRandomBlock r1 r2 = Inr b0" "blockInBounds b0"
    using createRandomBlock_inBounds [OF assms(1,2)] by blast
  obtain b1 where b1: "createRandomBlock r3 r4 = Inr b1" "blockInBounds b1"
    using createRandomBlock_inBounds [OF assms(3,4)] by blast
  show ?thesis
    using b0 b1 gridShaped_emptyBoard
    by (simp add: initialWorld_def Let_def worldInv_def)
qed

lemma worldInv_move:
  assumes inv: "worldInv w"
    and ok: "isValidMove (blocks w) (state w) deltaX deltaY = Inr True"
    and b': "b' = (blocks w (currentBlock (state w)))
                    \<lparr> x := x (blocks w (currentBlock (state w))) + deltaX,
                      y := y (blocks w (currentBlock (state w))) + deltaY \<rparr>"
  shows "worldInv (w\<lparr> blocks := (blocks w)(currentBlock (state w) := b') \<rparr>)"
proof -
  have g: "gridShaped (gameBoard (state w))" using inv by (simp add: worldInv_def)
  have "blockInBounds b'" unfolding b' using isValidMove_moved_inBounds [OF g ok] .
  then show ?thesis using inv by (auto simp: worldInv_def)
qed

lemma reducer_total_KeyA:
  assumes "worldInv w"
  shows "\<exists>w'. reducer r1 r2 w KeyA = Inr w' \<and> worldInv w'"
proof -
  have g: "gridShaped (gameBoard (state w))" using assms by (simp add: worldInv_def)
  obtain ok where ok: "isValidMove (blocks w) (state w) (- 1) 0 = Inr ok"
    using isValidMove_gridShaped [OF g] by blast
  show ?thesis
  proof (cases ok)
    case True
    with ok have okT: "isValidMove (blocks w) (state w) (- 1) 0 = Inr True" by simp
    have "worldInv (w\<lparr> blocks := (blocks w)(currentBlock (state w) :=
            (blocks w (currentBlock (state w)))\<lparr> x := x (blocks w (currentBlock (state w))) - 1 \<rparr>) \<rparr>)"
      using worldInv_move [OF assms okT, OF refl] by simp
    then show ?thesis using okT by (simp add: reducer_def Let_def)
  next
    case False
    then show ?thesis using ok assms by (simp add: reducer_def Let_def)
  qed
qed

lemma reducer_total_KeyD:
  assumes "worldInv w"
  shows "\<exists>w'. reducer r1 r2 w KeyD = Inr w' \<and> worldInv w'"
proof -
  have g: "gridShaped (gameBoard (state w))" using assms by (simp add: worldInv_def)
  obtain ok where ok: "isValidMove (blocks w) (state w) 1 0 = Inr ok"
    using isValidMove_gridShaped [OF g] by blast
  show ?thesis
  proof (cases ok)
    case True
    with ok have okT: "isValidMove (blocks w) (state w) 1 0 = Inr True" by simp
    have "worldInv (w\<lparr> blocks := (blocks w)(currentBlock (state w) :=
            (blocks w (currentBlock (state w)))\<lparr> x := x (blocks w (currentBlock (state w))) + 1 \<rparr>) \<rparr>)"
      using worldInv_move [OF assms okT, OF refl] by simp
    then show ?thesis using okT by (simp add: reducer_def Let_def)
  next
    case False
    then show ?thesis using ok assms by (simp add: reducer_def Let_def)
  qed
qed

lemma reducer_total_KeyS:
  assumes "worldInv w"
  shows "\<exists>w'. reducer r1 r2 w KeyS = Inr w' \<and> worldInv w'"
proof -
  have g: "gridShaped (gameBoard (state w))" using assms by (simp add: worldInv_def)
  obtain ok where ok: "isValidMove (blocks w) (state w) 0 1 = Inr ok"
    using isValidMove_gridShaped [OF g] by blast
  show ?thesis
  proof (cases ok)
    case True
    with ok have okT: "isValidMove (blocks w) (state w) 0 1 = Inr True" by simp
    have "worldInv (w\<lparr> blocks := (blocks w)(currentBlock (state w) :=
            (blocks w (currentBlock (state w)))\<lparr> y := y (blocks w (currentBlock (state w))) + 1 \<rparr>) \<rparr>)"
      using worldInv_move [OF assms okT, OF refl] by simp
    then show ?thesis using okT by (simp add: reducer_def Let_def)
  next
    case False
    then show ?thesis using ok assms by (simp add: reducer_def Let_def)
  qed
qed

lemma reducer_total_KeyR:
  assumes "worldInv w"
  shows "\<exists>w'. reducer r1 r2 w KeyR = Inr w' \<and> worldInv w'"
  using assms gridShaped_emptyBoard
  by (auto simp: reducer_def Let_def restartGame_def worldInv_def)

lemma reducer_total_Tick:
  assumes inv: "worldInv w" and rng: "isRandom r1" "isRandom r2"
  shows "\<exists>w'. reducer r1 r2 w Tick = Inr w' \<and> worldInv w'"
proof (cases "gameEnd (state w)")
  case True
  then show ?thesis using inv by (simp add: reducer_def Let_def)
next
  case playing: False
  define cur where "cur = currentBlock (state w)"
  have g: "gridShaped (gameBoard (state w))" using inv by (simp add: worldInv_def)
  have refs: "\<forall>a \<in> {currentBlock (state w), nextBlock (state w),
              currentBlock (initialStateWithNextShape w),
              nextBlock (initialStateWithNextShape w)}.
        a < nextRef w \<and> blockInBounds (blocks w a)"
    using inv by (simp add: worldInv_def)
  obtain ok where ok: "isValidMove (blocks w) (state w) 0 1 = Inr ok"
    using isValidMove_gridShaped [OF g] by blast
  show ?thesis
  proof (cases ok)
    case True
    with ok have okT: "isValidMove (blocks w) (state w) 0 1 = Inr True" by simp
    have nb: "blockInBounds ((blocks w cur)\<lparr> y := y (blocks w cur) + 1 \<rparr>)"
      using isValidMove_moved_inBounds [OF g okT] by (simp add: cur_def)
    have r: "reducer r1 r2 w Tick =
        Inr (w\<lparr> blocks := (blocks w)(nextRef w := (blocks w cur)\<lparr> y := y (blocks w cur) + 1 \<rparr>),
                nextRef := Suc (nextRef w),
                state := (state w)\<lparr> currentBlock := nextRef w \<rparr> \<rparr>)"
      using playing okT by (simp add: reducer_def Let_def cur_def)
    show ?thesis unfolding r using g refs nb by (auto simp: worldInv_def)
  next
    case False
    with ok have okF: "isValidMove (blocks w) (state w) 0 1 = Inr False" by simp
    have cb: "blockInBounds (blocks w cur)" using refs by (simp add: cur_def)
    obtain g' d where st:
        "stackBlock (gameBoard (state w)) (blocks w (currentBlock (state w))) (state w) = Inr (g', d)"
        "gridShaped g'"
      using stackBlock_gridShaped [OF g cb] unfolding cur_def by blast
    obtain over where ov: "isGameOver g' = Inr over"
      using isGameOver_gridShaped [OF st(2)] by blast
    show ?thesis
    proof (cases over)
      case True
      with ov have ovT: "isGameOver g' = Inr True" by simp
      have gs: "gridShaped (gameBoard (clearFullRows ((state w)\<lparr> gameBoard := g' \<rparr>)))"
        using st(2) by (intro clearFullRows_gridShaped) simp
      show ?thesis
        unfolding reducer_Tick_over [OF playing okF st(1) ovT]
        using gs refs by (simp add: worldInv_def clearFullRows_fields)
    next
      case False
      with ov have ovF: "isGameOver g' = Inr False" by simp
      obtain nb where nb: "createRandomBlock r1 r2 = Inr nb" "blockInBounds nb"
        using createRandomBlock_inBounds [OF rng] by blast
      have gs: "gridShaped (gameBoard (clearFullRows
                  ((state w)\<lparr> gameBoard := g', score := numAdd (score (state w)) 1 \<rparr>)))"
        using st(2) by (intro clearFullRows_gridShaped) simp
      show ?thesis
        unfolding reducer_Tick_landed [OF playing okF st(1) ovF nb(1)]
        using gs refs nb(2) by (auto simp: worldInv_def clearFullRows_fields)
    qed
  qed
qed

lemma reducer_total:
  assumes "worldInv w" "isRandom r1" "isRandom r2"
  shows "\<exists>w'. reducer r1 r2 w event = Inr w' \<and> worldInv w'"
proof (cases event)
  case KeyA
  then show ?thesis using reducer_total_KeyA [OF assms(1)] by simp
next
  case KeyD
  then show ?thesis using reducer_total_KeyD [OF assms(1)] by simp
next
  case KeyS
  then show ?thesis using reducer_total_KeyS [OF assms(1)] by simp
next
  case KeyR
  then show ?thesis using reducer_total_KeyR [OF assms(1)] by simp
next
  case Tick
  then show ?thesis using reducer_total_Tick [OF assms] by simp
qed

lemma reachable_worldInv:
  assumes "reachable w"
  shows "worldInv w"
  using assms
proof (induction rule: reachable.induct)
  case (reachable_init r1 r2 r3 r4 w)
  then show ?case using worldInv_initialWorld [of r1 r2 r3 r4] by auto
next
  case (reachable_step w r1 r2 event w')
  then show ?case using reducer_total [of w r1 r2 event] by auto
qed

lemma reachable_reducer_returns:
  assumes "reachable w" "isRandom r1" "isRandom r2"
  shows "\<exists>w'. reducer r1 r2 w event = Inr w' \<and> reachable w'"
proof -
  obtain w' where w': "reducer r1 r2 w event = Inr w'"
    using reducer_total [OF reachable_worldInv [OF assms(1)] assms(2,3)] by blast
  then show ?thesis using reachable_step [OF assms w'] by blast
qed

section \<open>The example games are reachable\<close>

lemma play_reachable:
  assumes "isRandom r1" "isRandom r2" "isRandom r3" "isRandom r4"
    and "randomsInRange events" and "play r1 r2 r3 r4 events = Inr w"
  shows "reachable w"
proof -
  obtain w0 where w0: "initialWorld r1 r2 r3 r4 = Inr w0" "run w0 events = Inr w"
    using assms(6) by (auto simp: play_def split: sum.splits)
  have "reachable w0" using reachable_init [OF assms(1-4) w0(1)] .
  then show ?thesis using reachable_run assms(5) w0(2) by blast
qed

lemma squaresGame_reachable: "\<exists>w. play rZero rZero rZero rQuarter squaresGame = Inr w \<and> reachable w"
proof -
  have "isl (play rZero rZero rZero rQuarter squaresGame) = False" by code_simp
  then obtain w where w: "play rZero rZero rZero rQuarter squaresGame = Inr w"
    by (cases "play rZero rZero rZero rQuarter squaresGame") auto
  have r: "randomsInRange squaresGame" by code_simp
  have "reachable w" by (rule play_reachable [OF _ _ _ _ r w]) code_simp+
  with w show ?thesis by blast
qed

lemma towerGame_reachable: "\<exists>w. play rHalf rZero rHalf rZero towerGame = Inr w \<and> reachable w"
proof -
  have "isl (play rHalf rZero rHalf rZero towerGame) = False" by code_simp
  then obtain w where w: "play rHalf rZero rHalf rZero towerGame = Inr w"
    by (cases "play rHalf rZero rHalf rZero towerGame") auto
  have r: "randomsInRange towerGame" by code_simp
  have "reachable w" by (rule play_reachable [OF _ _ _ _ r w]) code_simp+
  with w show ?thesis by blast
qed

lemma clearAtTopGame_reachable:
  "\<exists>w. play rHalf rHalf rHalf rHalf clearAtTopGame = Inr w \<and> reachable w"
proof -
  have "isl (play rHalf rHalf rHalf rHalf clearAtTopGame) = False" by code_simp
  then obtain w where w: "play rHalf rHalf rHalf rHalf clearAtTopGame = Inr w"
    by (cases "play rHalf rHalf rHalf rHalf clearAtTopGame") auto
  have r: "randomsInRange clearAtTopGame" by code_simp
  have "reachable w" by (rule play_reachable [OF _ _ _ _ r w]) code_simp+
  with w show ?thesis by blast
qed

section \<open>Row clearing with two full rows\<close>

text \<open>
  C1 (the code does not do this). The claim: when a piece locks, the clearing step
  removes exactly the full rows, puts as many empty rows on top, and keeps the order of
  the other rows, also when two rows are full at once. In \<open>squaresGame\<close> the fifth
  square locks at rows 18 and 19 and fills both. The loop removes row 19; the rows above
  have then moved down by one, and its second \<^verbatim>\<open>splice\<close>, at index 18, removes the row
  that was row 17 instead of the full row that was row 18: a full row stays at the
  bottom. In \<open>twoRowsWorld\<close> the same happens and the two cells of row 17 are lost.
\<close>

theorem two_full_rows_one_remains:
  "map_sum id (gameBoard \<circ> state) (play rZero rZero rZero rQuarter (butlast squaresGame)) =
     Inr (replicate 18 emptyRow @
          [cells [1, 1, 1, 1, 1, 1, 1, 1, 0, 0], cells [1, 1, 1, 1, 1, 1, 1, 1, 0, 0]]) \<and>
   map_sum id currentPiece (play rZero rZero rZero rQuarter (butlast squaresGame)) =
     Inr \<lparr> shape = [[1, 1], [1, 1]], x = 8, y = 18 \<rparr> \<and>
   map_sum id (gameBoard \<circ> state) (play rZero rZero rZero rQuarter squaresGame) =
     Inr (replicate 19 emptyRow @ [cells [1, 1, 1, 1, 1, 1, 1, 1, 1, 1]]) \<and>
   map_sum id (gameBoard \<circ> state) (reducer rZero rZero twoRowsWorld Tick) =
     Inr (replicate 19 emptyRow @ [cells [1, 1, 1, 1, 1, 1, 1, 1, 1, 1]])"
  by code_simp

section \<open>Key events after the game has ended\<close>

text \<open>
  What does hold in an ended game: a tick returns the world as it is, and so does a key
  whose move \<^verbatim>\<open>isValidMove\<close> rejects.
\<close>

lemma reducer_Tick_ended:
  assumes "gameEnd (state w)"
  shows "reducer r1 r2 w Tick = Inr w"
  using assms by (simp add: reducer_def Let_def)

lemma reducer_key_rejected:
  assumes "isValidMove (blocks w) (state w) (- 1) 0 = Inr False"
    and "isValidMove (blocks w) (state w) 1 0 = Inr False"
    and "isValidMove (blocks w) (state w) 0 1 = Inr False"
  shows "reducer r1 r2 w KeyA = Inr w \<and> reducer r1 r2 w KeyD = Inr w \<and>
         reducer r1 r2 w KeyS = Inr w"
  using assms by (simp add: reducer_def Let_def)

text \<open>
  C3 (the code does not do this). The claim: once the game has ended, every event other
  than the restart key returns the state unchanged. The tick branch returns the state
  when \<open>gameEnd\<close> is set, but the branches of the keys A, D and S do not test it. In
  \<open>clearAtTopGame\<close> the last L piece locks at column 4, ends the game and clears row 2
  in the same tick; the key D then moves the piece of the ended game to column 5.
\<close>

theorem piece_moves_after_game_over:
  "map_sum id (gameEnd \<circ> state) (play rHalf rHalf rHalf rHalf clearAtTopGame) = Inr True \<and>
   map_sum id currentPiece (play rHalf rHalf rHalf rHalf clearAtTopGame) =
     Inr \<lparr> shape = [[1, 0], [1, 0], [1, 1]], x = 4, y = 0 \<rparr> \<and>
   map_sum id (gameEnd \<circ> state)
     (play rHalf rHalf rHalf rHalf (clearAtTopGame @ [(rZero, rZero, KeyD)])) = Inr True \<and>
   map_sum id currentPiece
     (play rHalf rHalf rHalf rHalf (clearAtTopGame @ [(rZero, rZero, KeyD)])) =
     Inr \<lparr> shape = [[1, 0], [1, 0], [1, 1]], x = 5, y = 0 \<rparr>"
  by code_simp

section \<open>Restart\<close>

text \<open>The restart branch draws no random number.\<close>

lemma reducer_KeyR_no_random: "reducer r1 r2 w KeyR = reducer r3 r4 w KeyR"
  by (simp add: reducer_def)

text \<open>
  C4 as stated fails: after a restart the pieces are not freshly spawned. In
  \<open>towerGame\<close> the first piece is moved down once before the first tick, the game
  ends, and the restart key is pressed while \<open>gameEnd\<close> and \<open>canRestart\<close> hold. The
  restart allocates no block (\<open>nextRef\<close> stays 64), and the active piece of the new game
  is the first block object of the program, still at row 1, whereas a spawned piece is
  at row 0.
\<close>

theorem restart_reuses_initial_pieces:
  "map_sum id (gameEnd \<circ> state) (play rHalf rZero rHalf rZero towerGame) = Inr True \<and>
   map_sum id (canRestart \<circ> state) (play rHalf rZero rHalf rZero towerGame) = Inr True \<and>
   map_sum id nextRef (play rHalf rZero rHalf rZero towerGame) = Inr 64 \<and>
   map_sum id nextRef (play rHalf rZero rHalf rZero (towerGame @ [(rHalf, rThreeQuarters, KeyR)])) = Inr 64 \<and>
   map_sum id (gameEnd \<circ> state) (play rHalf rZero rHalf rZero (towerGame @ [(rHalf, rThreeQuarters, KeyR)])) = Inr False \<and>
   map_sum id (currentBlock \<circ> state)
     (play rHalf rZero rHalf rZero (towerGame @ [(rHalf, rThreeQuarters, KeyR)])) = Inr 0 \<and>
   map_sum id currentPiece (play rHalf rZero rHalf rZero (towerGame @ [(rHalf, rThreeQuarters, KeyR)])) =
     Inr \<lparr> shape = [[1, 0], [1, 0], [1, 1]], x = 0, y = 1 \<rparr> \<and>
   map_sum id nextPiece (play rHalf rZero rHalf rZero (towerGame @ [(rHalf, rThreeQuarters, KeyR)])) =
     Inr \<lparr> shape = [[1, 0], [1, 0], [1, 1]], x = 0, y = 0 \<rparr>"
  by code_simp

text \<open>
  What a run of the program keeps: the captured initial state, and the shapes of the two
  block objects of the initial state (a key changes the position of a block, never its
  shape, and new blocks get new addresses).
\<close>

lemma reducer_keeps_initial:
  assumes "reducer r1 r2 w event = Inr w'" and "2 \<le> nextRef w"
  shows "initialStateWithNextShape w' = initialStateWithNextShape w \<and> 2 \<le> nextRef w' \<and>
         shape (blocks w' 0) = shape (blocks w 0) \<and> shape (blocks w' 1) = shape (blocks w 1)"
proof (cases event)
  case KeyA
  then show ?thesis using assms by (auto simp: reducer_def Let_def split: sum.splits if_splits)
next
  case KeyD
  then show ?thesis using assms by (auto simp: reducer_def Let_def split: sum.splits if_splits)
next
  case KeyS
  then show ?thesis using assms by (auto simp: reducer_def Let_def split: sum.splits if_splits)
next
  case KeyR
  then show ?thesis using assms by (auto simp: reducer_def Let_def split: if_splits)
next
  case Tick
  then show ?thesis using assms
    by (auto simp: reducer_def Let_def split: sum.splits if_splits prod.splits)
qed

lemma run_keeps_initial:
  assumes "run w events = Inr w'" and "2 \<le> nextRef w"
  shows "initialStateWithNextShape w' = initialStateWithNextShape w \<and> 2 \<le> nextRef w' \<and>
         shape (blocks w' 0) = shape (blocks w 0) \<and> shape (blocks w' 1) = shape (blocks w 1)"
  using assms
proof (induction events arbitrary: w)
  case Nil
  then show ?case by simp
next
  case (Cons ev events)
  obtain r1 r2 event where ev: "ev = (r1, r2, event)" by (cases ev) auto
  from Cons.prems(1) obtain w1 where w1: "reducer r1 r2 w event = Inr w1" "run w1 events = Inr w'"
    by (auto simp: ev split: sum.splits)
  note step = reducer_keeps_initial [OF w1(1) Cons.prems(2)]
  then have "2 \<le> nextRef w1" by blast
  from Cons.IH [OF w1(2) this] step show ?case by simp
qed

lemma initialWorld_shape:
  assumes "initialWorld r1 r2 r3 r4 = Inr w"
  shows "nextRef w = 2 \<and> initialStateWithNextShape w = state w \<and>
         currentBlock (state w) = 0 \<and> nextBlock (state w) = 1 \<and>
         nextBlockShape (state w) = shape (blocks w 1)"
  using assms by (auto simp: initialWorld_def Let_def split: sum.splits)

text \<open>
  C4, amended. In every state that the program reaches from its start, the restart key
  returns normally. It returns the world unchanged whenever \<open>canRestart\<close> or \<open>gameEnd\<close>
  is false. Otherwise it returns a state with a new empty grid, score 0, level 1,
  \<open>gameEnd\<close> and \<open>canRestart\<close> false and \<open>highScore\<close> the maximum of the previous high
  score and the previous score; it spawns no piece: the active and the next piece have
  the shapes of the two pieces of the initial state, and \<open>nextBlockShape\<close> is the shape
  of the initial next piece. Where these two pieces stand is not part of the statement.
\<close>

theorem restart_resets_to_initial_state:
  assumes "initialWorld r1 r2 r3 r4 = Inr w0" and "run w0 events = Inr w"
  shows "\<exists>w'. reducer r5 r6 w KeyR = Inr w' \<and>
           (\<not> (canRestart (state w) \<and> gameEnd (state w)) \<longrightarrow> w' = w) \<and>
           (canRestart (state w) \<and> gameEnd (state w) \<longrightarrow>
              gameBoard (state w') = emptyBoard \<and> score (state w') = 0 \<and>
              level (state w') = 1 \<and> \<not> gameEnd (state w') \<and> \<not> canRestart (state w') \<and>
              highScore (state w') = max (highScore (state w)) (score (state w)) \<and>
              shape (currentPiece w') = shape (currentPiece w0) \<and>
              shape (nextPiece w') = shape (nextPiece w0) \<and>
              nextBlockShape (state w') = shape (nextPiece w0) \<and>
              nextRef w' = nextRef w)"
proof -
  note i0 = initialWorld_shape [OF assms(1)]
  have f0: "\<not> gameEnd (state w0)" "score (state w0) = 0" "level (state w0) = 1"
    using initialWorld_flags [OF assms(1)] by simp_all
  have "2 \<le> nextRef w0" using i0 by simp
  note k = run_keeps_initial [OF assms(2) this]
  have init: "initialStateWithNextShape w = state w0" using k i0 by simp
  show ?thesis
    using k i0 f0
    by (auto simp: reducer_def Let_def restartGame_def max_def init currentPiece_def
        nextPiece_def)
qed

theorem restart_resets_to_initial_state_witness:
  "\<exists>w0 w. initialWorld rHalf rZero rHalf rZero = Inr w0 \<and> run w0 towerGame = Inr w \<and>
        canRestart (state w) \<and> gameEnd (state w) \<and> score (state w) = 6 \<and>
        shape (currentPiece w0) = [[1, 0], [1, 0], [1, 1]] \<and>
        shape (nextPiece w0) = [[1, 0], [1, 0], [1, 1]] \<and>
        (\<exists>w'. reducer rHalf rThreeQuarters w KeyR = Inr w' \<and>
           gameBoard (state w') = emptyBoard \<and> score (state w') = 0 \<and>
           level (state w') = 1 \<and> \<not> gameEnd (state w') \<and> \<not> canRestart (state w') \<and>
           highScore (state w') = 6 \<and>
           shape (currentPiece w') = [[1, 0], [1, 0], [1, 1]] \<and>
           shape (nextPiece w') = [[1, 0], [1, 0], [1, 1]] \<and>
           nextBlockShape (state w') = [[1, 0], [1, 0], [1, 1]] \<and>
           nextRef w' = nextRef w)"
proof -
  have "isl (play rHalf rZero rHalf rZero towerGame) = False" by code_simp
  then obtain w0 w where w: "initialWorld rHalf rZero rHalf rZero = Inr w0"
      "run w0 towerGame = Inr w"
    by (cases "initialWorld rHalf rZero rHalf rZero"; cases "play rHalf rZero rHalf rZero towerGame")
       (auto simp: play_def)
  have p: "play rHalf rZero rHalf rZero towerGame = Inr w" by (simp add: play_def w)
  have "map_sum id (\<lambda>v. (canRestart (state v), gameEnd (state v), score (state v),
          highScore (state v))) (play rHalf rZero rHalf rZero towerGame) = Inr (True, True, 6, 6)"
    by code_simp
  then have f: "canRestart (state w)" "gameEnd (state w)" "score (state w) = 6"
      "highScore (state w) = 6"
    by (simp_all add: p)
  have "map_sum id (\<lambda>v. (shape (currentPiece v), shape (nextPiece v)))
          (initialWorld rHalf rZero rHalf rZero) =
        Inr ([[1, 0], [1, 0], [1, 1]], [[1, 0], [1, 0], [1, 1]])"
    by code_simp
  then have s: "shape (currentPiece w0) = [[1, 0], [1, 0], [1, 1]]"
      "shape (nextPiece w0) = [[1, 0], [1, 0], [1, 1]]"
    by (simp_all add: w(1))
  show ?thesis
    using w f s restart_resets_to_initial_state [OF w, of rHalf rThreeQuarters] by auto
qed

section \<open>Invariants of the reachable worlds\<close>

text \<open>
  C8. In every world reachable from the initial state by any sequence of events,
  \<open>canRestart\<close> implies \<open>gameEnd\<close>; and every single transition from such a world (any
  event, any results of \<^verbatim>\<open>Math.random()\<close>) returns a world in which it holds again.
\<close>

theorem canRestart_only_while_ended:
  assumes "reachable w"
  shows "(canRestart (state w) \<longrightarrow> gameEnd (state w)) \<and>
         (\<forall>event r1 r2. isRandom r1 \<and> isRandom r2 \<longrightarrow>
            (\<exists>w'. reducer r1 r2 w event = Inr w' \<and>
                   (canRestart (state w') \<longrightarrow> gameEnd (state w'))))"
proof -
  have gate: "canRestart (state v) \<longrightarrow> gameEnd (state v)" if "reachable v" for v
    using that
  proof (induction rule: reachable.induct)
    case (reachable_init r1 r2 r3 r4 w)
    then show ?case using initialWorld_flags by blast
  next
    case (reachable_step w r1 r2 event w')
    then show ?case using reducer_keeps_gate by blast
  qed
  have step: "\<exists>w'. reducer r1 r2 w event = Inr w' \<and> (canRestart (state w') \<longrightarrow> gameEnd (state w'))"
    if rng: "isRandom r1 \<and> isRandom r2" for event r1 r2
  proof -
    obtain w' where "reducer r1 r2 w event = Inr w'" "reachable w'"
      using reachable_reducer_returns [OF assms, of r1 r2 event] rng by blast
    then show ?thesis using gate by blast
  qed
  show ?thesis using gate [OF assms] step by blast
qed

theorem canRestart_only_while_ended_witness:
  "\<exists>w. play rHalf rZero rHalf rZero towerGame = Inr w \<and> reachable w \<and>
        canRestart (state w) \<and> gameEnd (state w) \<and>
        (\<exists>w'. reducer rHalf rHalf w KeyR = Inr w' \<and>
               (canRestart (state w') \<longrightarrow> gameEnd (state w')))"
proof -
  obtain w where w: "play rHalf rZero rHalf rZero towerGame = Inr w" "reachable w"
    using towerGame_reachable by blast
  have "map_sum id (canRestart \<circ> state) (play rHalf rZero rHalf rZero towerGame) = Inr True"
    by code_simp
  then have f: "canRestart (state w)" by (simp add: w(1))
  have r: "isRandom rHalf \<and> isRandom rHalf" by code_simp
  show ?thesis
    using w f r canRestart_only_while_ended [OF w(2)] by blast
qed

lemma run_highScore:
  assumes "run w events = Inr w'"
  shows "highScore (state w) \<le> highScore (state w')"
  using assms
proof (induction events arbitrary: w)
  case Nil
  then show ?case by simp
next
  case (Cons ev events)
  obtain r1 r2 event where ev: "ev = (r1, r2, event)" by (cases ev) auto
  from Cons.prems obtain w1 where w1: "reducer r1 r2 w event = Inr w1" "run w1 events = Inr w'"
    by (auto simp: ev split: sum.splits)
  have "highScore (state w) \<le> highScore (state w1)" using reducer_highScore [OF w1(1)] .
  also have "\<dots> \<le> highScore (state w')" using Cons.IH [OF w1(2)] .
  finally show ?case .
qed

text \<open>
  C9. For every world reachable from the initial state, every event and all results
  of \<^verbatim>\<open>Math.random()\<close>, the reducer returns a world whose \<open>highScore\<close> is at least the
  \<open>highScore\<close> before. (By \<open>run_highScore\<close> the same holds along any sequence of events.)
\<close>

theorem highScore_never_decreases:
  assumes "reachable w" "isRandom r1" "isRandom r2"
  shows "\<exists>w'. reducer r1 r2 w event = Inr w' \<and> highScore (state w) \<le> highScore (state w')"
proof -
  obtain w' where w': "reducer r1 r2 w event = Inr w'"
    using reachable_reducer_returns [OF assms] by blast
  then show ?thesis using reducer_highScore by blast
qed

theorem highScore_never_decreases_witness:
  "\<exists>w. play rHalf rHalf rHalf rHalf (butlast clearAtTopGame) = Inr w \<and> reachable w \<and>
        isRandom rHalf \<and> highScore (state w) = 0 \<and>
        (\<exists>w'. reducer rHalf rHalf w Tick = Inr w' \<and> highScore (state w') = 19 \<and>
               highScore (state w) \<le> highScore (state w'))"
proof -
  have r: "isRandom rHalf" by code_simp
  have "isl (play rHalf rHalf rHalf rHalf (butlast clearAtTopGame)) = False" by code_simp
  then obtain w where w: "play rHalf rHalf rHalf rHalf (butlast clearAtTopGame) = Inr w"
    by (cases "play rHalf rHalf rHalf rHalf (butlast clearAtTopGame)") auto
  have rr: "randomsInRange (butlast clearAtTopGame)" by code_simp
  have reach: "reachable w" by (rule play_reachable [OF _ _ _ _ rr w]) code_simp+
  have "map_sum id (\<lambda>v. (highScore (state v), map_sum id (highScore \<circ> state) (reducer rHalf rHalf v Tick)))
          (play rHalf rHalf rHalf rHalf (butlast clearAtTopGame)) = Inr (0, Inr 19)"
    by code_simp
  then have f: "highScore (state w) = 0"
      "map_sum id (highScore \<circ> state) (reducer rHalf rHalf w Tick) = Inr 19"
    by (simp_all add: w)
  obtain w' where w': "reducer rHalf rHalf w Tick = Inr w'"
      "highScore (state w) \<le> highScore (state w')"
    using highScore_never_decreases [OF reach r r, of Tick] by blast
  have "highScore (state w') = 19" using f(2) by (simp add: w'(1))
  then show ?thesis using w reach r f(1) w' by blast
qed

end
